theory Spec2Isabelle
  imports Complex_Main "HOL-Library.Word"
begin

section \<open>Chunked file transfer: data model\<close>

text \<open>
  The embedding of \<^verbatim>\<open>src/lib/webRTC/typings/file-transfer.ts\<close> and
  \<^verbatim>\<open>src/lib/webRTC/manager/file-transfer.ts\<close>. A JavaScript \<^verbatim>\<open>ArrayBuffer\<close> is a list
  of bytes, a \<^verbatim>\<open>Map\<close> is an association list in insertion order (the order in which
  \<^verbatim>\<open>forEach\<close> and \<^verbatim>\<open>values()\<close> visit it), byte counts and indices are naturals, and the
  counter \<^verbatim>\<open>activeTransfers\<close>, which the code decrements without a guard, is an integer.
\<close>

type_synonym byte = "8 word"

datatype FileTransferStatus =
  PENDING | PREPARING | TRANSFERRING | PAUSED | COMPLETED | FAILED | CANCELLED

record File =
  file_name :: string
  file_type :: string
  file_bytes :: "byte list"

definition file_size :: "File \<Rightarrow> nat" where
  "file_size f = length (file_bytes f)"

record FileChunk =
  chunk_id :: string
  chunk_index :: nat
  chunk_data :: "byte list"
  chunk_size :: nat
  chunk_checksum :: "string option"

record FileTransferConfig =
  chunkSize :: nat
  maxConcurrentTransfers :: int
  enableChecksum :: bool
  retryAttempts :: nat
  retryDelay :: nat

definition DEFAULT_CONFIG :: FileTransferConfig where
  "DEFAULT_CONFIG =
     \<lparr>chunkSize = 64 * 1024, maxConcurrentTransfers = 3, enableChecksum = True,
      retryAttempts = 3, retryDelay = 1000\<rparr>"

record TransferringFile =
  tf_id :: string
  tf_file :: File
  tf_chunks :: "FileChunk list"
  tf_receivedChunks :: "(nat \<times> FileChunk) list"
  tf_totalChunks :: nat
  tf_status :: FileTransferStatus
  tf_startTime :: nat
  tf_lastProgressTime :: nat
  tf_transferredSize :: nat
  tf_retryCount :: nat

subsection \<open>JavaScript maps in insertion order\<close>

fun map_get :: "('k \<times> 'v) list \<Rightarrow> 'k \<Rightarrow> 'v option" where
  "map_get [] k = None"
| "map_get ((k', v) # m) k = (if k' = k then Some v else map_get m k)"

text \<open>\<^verbatim>\<open>Map.set\<close>: an existing key keeps its place, a new key goes last.\<close>

fun map_set :: "('k \<times> 'v) list \<Rightarrow> 'k \<Rightarrow> 'v \<Rightarrow> ('k \<times> 'v) list" where
  "map_set [] k v = [(k, v)]"
| "map_set ((k', v') # m) k v = (if k' = k then (k, v) # m else (k', v') # map_set m k v)"

fun map_delete :: "('k \<times> 'v) list \<Rightarrow> 'k \<Rightarrow> ('k \<times> 'v) list" where
  "map_delete [] k = []"
| "map_delete ((k', v') # m) k = (if k' = k then m else (k', v') # map_delete m k)"

definition map_has :: "('k \<times> 'v) list \<Rightarrow> 'k \<Rightarrow> bool" where
  "map_has m k = (map_get m k \<noteq> None)"

definition map_values :: "('k \<times> 'v) list \<Rightarrow> 'v list" where
  "map_values m = map snd m"

subsection \<open>Printing numbers\<close>

definition digit_char :: "nat \<Rightarrow> char" where
  "digit_char d = (''0123456789abcdef'' ! d)"

text \<open>\<^verbatim>\<open>Number.prototype.toString(radix)\<close> on a non-negative integer, for a radix from 2 to 16.\<close>

fun to_radix :: "nat \<Rightarrow> nat \<Rightarrow> string" where
  "to_radix r n =
     (if r < 2 \<or> n < r then [digit_char n]
      else to_radix r (n div r) @ [digit_char (n mod r)])"

declare to_radix.simps [simp del]

subsection \<open>Checksums\<close>

text \<open>
  \<^verbatim>\<open>calculateChecksum\<close> asks the Web Crypto API for a SHA-256 digest and falls back to a
  byte sum when \<^verbatim>\<open>crypto.subtle\<close> is absent or the digest fails. The digest is the
  platform's, not this repository's: it is a parameter, \<open>None\<close> when \<^verbatim>\<open>crypto.subtle\<close>
  is absent, and a function that returns \<open>None\<close> where the call rejects.
\<close>

type_synonym subtle_crypto = "(byte list \<Rightarrow> byte list option) option"

definition hex_byte :: "byte \<Rightarrow> string" where
  "hex_byte b = [digit_char (unat b div 16), digit_char (unat b mod 16)]"

definition fallback_checksum :: "byte list \<Rightarrow> nat" where
  "fallback_checksum view = fold (\<lambda>b checksum. (checksum + unat b) mod 0xffffffff) view 0"

definition calculateChecksum :: "subtle_crypto \<Rightarrow> byte list \<Rightarrow> string" where
  "calculateChecksum crypto bytes =
     (case crypto of
        None \<Rightarrow> to_radix 16 (fallback_checksum bytes)
      | Some digest \<Rightarrow>
          (case digest bytes of
             Some hashArray \<Rightarrow> concat (map hex_byte hashArray)
           | None \<Rightarrow> to_radix 16 (fallback_checksum bytes)))"

subsection \<open>Splitting a file into chunks\<close>

text \<open>
  \<^verbatim>\<open>Math.ceil(file.size / this.config.chunkSize)\<close>. With a chunk size of 0 the quotient
  is \<^verbatim>\<open>Infinity\<close> or \<^verbatim>\<open>NaN\<close>, not a number of chunks: \<open>None\<close>.
\<close>

definition ceil_div :: "nat \<Rightarrow> nat \<Rightarrow> nat" where
  "ceil_div s c = s div c + (if s mod c = 0 then 0 else 1)"

definition totalChunks_of :: "nat \<Rightarrow> nat \<Rightarrow> nat option" where
  "totalChunks_of s c = (if c = 0 then None else Some (ceil_div s c))"

text \<open>\<^verbatim>\<open>Blob.slice(start, end)\<close>: both ends are clamped to the blob.\<close>

definition blob_slice :: "byte list \<Rightarrow> nat \<Rightarrow> nat \<Rightarrow> byte list" where
  "blob_slice bytes start stop = take (stop - start) (drop start bytes)"

definition make_chunk ::
  "FileTransferConfig \<Rightarrow> subtle_crypto \<Rightarrow> TransferringFile \<Rightarrow> nat \<Rightarrow> FileChunk" where
  "make_chunk cfg crypto transferFile i =
     (let start = i * chunkSize cfg;
          stop = min (start + chunkSize cfg) (file_size (tf_file transferFile));
          arrayBuffer = blob_slice (file_bytes (tf_file transferFile)) start stop
      in \<lparr>chunk_id = tf_id transferFile @ ''-'' @ to_radix 10 i,
          chunk_index = i,
          chunk_data = arrayBuffer,
          chunk_size = length arrayBuffer,
          chunk_checksum =
            (if enableChecksum cfg then Some (calculateChecksum crypto arrayBuffer) else None)\<rparr>)"

text \<open>The loop of \<^verbatim>\<open>prepareFileChunks\<close>: \<^verbatim>\<open>for (let i = 0; i < totalChunks; i++)\<close>.\<close>

function prepare_loop ::
  "FileTransferConfig \<Rightarrow> subtle_crypto \<Rightarrow> TransferringFile \<Rightarrow> nat \<Rightarrow> FileChunk list
     \<Rightarrow> FileChunk list" where
  "prepare_loop cfg crypto transferFile i chunks =
     (if i < tf_totalChunks transferFile
      then prepare_loop cfg crypto transferFile (Suc i)
             (chunks @ [make_chunk cfg crypto transferFile i])
      else chunks)"
  by pat_completeness auto
termination
  by (relation "measure (\<lambda>(cfg, crypto, transferFile, i, chunks). tf_totalChunks transferFile - i)")
    auto

declare prepare_loop.simps [simp del]

definition prepareFileChunks ::
  "FileTransferConfig \<Rightarrow> subtle_crypto \<Rightarrow> TransferringFile \<Rightarrow> TransferringFile" where
  "prepareFileChunks cfg crypto transferFile =
     transferFile\<lparr>tf_chunks := prepare_loop cfg crypto transferFile 0 []\<rparr>"

text \<open>The record \<^verbatim>\<open>sendFile\<close> creates before it prepares the chunks.\<close>

definition new_transfer ::
  "FileTransferConfig \<Rightarrow> string \<Rightarrow> File \<Rightarrow> nat \<Rightarrow> TransferringFile option" where
  "new_transfer cfg fileId file now =
     (case totalChunks_of (file_size file) (chunkSize cfg) of
        None \<Rightarrow> None
      | Some n \<Rightarrow>
          Some \<lparr>tf_id = fileId, tf_file = file, tf_chunks = [], tf_receivedChunks = [],
                tf_totalChunks = n, tf_status = PREPARING, tf_startTime = now,
                tf_lastProgressTime = now, tf_transferredSize = 0, tf_retryCount = 0\<rparr>)"

section \<open>The file transfer manager\<close>

subsection \<open>Channel, messages and events\<close>

text \<open>
  The \<^verbatim>\<open>RTCDataChannel\<close> is the browser's. The model keeps what the manager reads and
  writes: the ready state, whether the platform rejects a \<^verbatim>\<open>send\<close> (it may throw on an
  open channel too), and the messages handed to \<^verbatim>\<open>send\<close>, in order.
\<close>

datatype RTCDataChannelState = ch_connecting | ch_open | ch_closing | ch_closed

datatype control =
    FileInfoMsg string string nat string nat nat bool
  | ChunkRequestMsg string nat
  | ChunkAckMsg string nat
  | ChunkHeaderMsg string string nat nat "string option"
  | TransferCompleteMsg string
  | TransferErrorMsg string
  | UnknownMsg string

datatype wire = TextFrame control | BinaryFrame "byte list"

text \<open>
  What \<^verbatim>\<open>onmessage\<close> receives: a string that parses as a control message or does not
  (\<^verbatim>\<open>JSON.parse\<close> throws), an \<^verbatim>\<open>ArrayBuffer\<close>, or something else (a \<^verbatim>\<open>Blob\<close>).
\<close>

datatype incoming = StringData "control option" | ArrayBufferData "byte list" | OtherData

record channel =
  ch_readyState :: RTCDataChannelState
  ch_rejects :: bool
  ch_outbox :: "wire list"

datatype error = Error string | RangeError

text \<open>
  \<^verbatim>\<open>TransferProgress\<close> without its floating-point fields (\<^verbatim>\<open>percentage\<close>, \<^verbatim>\<open>speed\<close>,
  \<^verbatim>\<open>remainingTime\<close>), which no statement below reads.
\<close>

record TransferProgress =
  pr_fileId :: string
  pr_fileName :: string
  pr_totalSize :: nat
  pr_transferredSize :: nat
  pr_status :: FileTransferStatus

datatype event =
    ProgressEv TransferProgress
  | CompletedEv string File
  | FailedEv string string
  | CancelledEv string
  | ChunkReceivedEv string nat
  | ChunkSentEv string nat

text \<open>
  The manager. \<open>emitted\<close> lists the calls of \<^verbatim>\<open>emit\<close> in order and \<open>console\<close> the lines
  written to the console; \<^verbatim>\<open>emit\<close> catches what a listener throws (see the section on
  event emitters), so the manager's control flow does not depend on the listeners, which
  are taken not to call back into the manager.
\<close>

record manager =
  dataChannel :: "channel option"
  config :: FileTransferConfig
  sendingFiles :: "(string \<times> TransferringFile) list"
  receivingFiles :: "(string \<times> TransferringFile) list"
  transferQueue :: "string list"
  activeTransfers :: int
  emitted :: "event list"
  console :: "string list"

definition new_manager :: "FileTransferConfig \<Rightarrow> manager" where
  "new_manager cfg =
     \<lparr>dataChannel = None, config = cfg, sendingFiles = [], receivingFiles = [],
      transferQueue = [], activeTransfers = 0, emitted = [], console = []\<rparr>"

definition emit :: "event \<Rightarrow> manager \<Rightarrow> manager" where
  "emit ev st = st\<lparr>emitted := emitted st @ [ev]\<rparr>"

definition console_log :: "string \<Rightarrow> manager \<Rightarrow> manager" where
  "console_log line st = st\<lparr>console := console st @ [line]\<rparr>"

definition setDataChannel :: "channel \<Rightarrow> manager \<Rightarrow> manager" where
  "setDataChannel ch st = st\<lparr>dataChannel := Some ch\<rparr>"

text \<open>\<^verbatim>\<open>dataChannel.send\<close>, on a channel known to be open.\<close>

definition channel_send :: "wire \<Rightarrow> channel \<Rightarrow> error + channel" where
  "channel_send w ch =
     (if ch_rejects ch then Inl (Error ''send failed'')
      else Inr (ch\<lparr>ch_outbox := ch_outbox ch @ [w]\<rparr>))"

definition sendControlMessage :: "control \<Rightarrow> manager \<Rightarrow> error option \<times> manager" where
  "sendControlMessage message st =
     (case dataChannel st of
        None \<Rightarrow> (Some (Error ''Data channel is not open''), st)
      | Some ch \<Rightarrow>
          if ch_readyState ch \<noteq> ch_open then (Some (Error ''Data channel is not open''), st)
          else (case channel_send (TextFrame message) ch of
                  Inl e \<Rightarrow> (Some e, console_log ''Failed to send control message'' st)
                | Inr ch' \<Rightarrow> (None, st\<lparr>dataChannel := Some ch'\<rparr>)))"

definition sendFileInfo :: "TransferringFile \<Rightarrow> manager \<Rightarrow> error option \<times> manager" where
  "sendFileInfo transferFile st =
     sendControlMessage
       (FileInfoMsg (tf_id transferFile) (file_name (tf_file transferFile))
          (file_size (tf_file transferFile)) (file_type (tf_file transferFile))
          (tf_totalChunks transferFile) (chunkSize (config st)) (enableChecksum (config st)))
       st"

subsection \<open>Progress and the queue\<close>

definition calculateProgress :: "TransferringFile \<Rightarrow> TransferProgress" where
  "calculateProgress transferFile =
     \<lparr>pr_fileId = tf_id transferFile,
      pr_fileName = file_name (tf_file transferFile),
      pr_totalSize = file_size (tf_file transferFile),
      pr_transferredSize = tf_transferredSize transferFile,
      pr_status = tf_status transferFile\<rparr>"

definition updateSendProgress :: "string \<Rightarrow> nat \<Rightarrow> manager \<Rightarrow> manager" where
  "updateSendProgress fileId chunkSz st =
     (case map_get (sendingFiles st) fileId of
        None \<Rightarrow> st
      | Some transferFile \<Rightarrow>
          (let transferFile' =
                 transferFile\<lparr>tf_transferredSize := tf_transferredSize transferFile + chunkSz\<rparr>
           in emit (ProgressEv (calculateProgress transferFile'))
                (st\<lparr>sendingFiles := map_set (sendingFiles st) fileId transferFile'\<rparr>)))"

definition startTransfer :: "string \<Rightarrow> manager \<Rightarrow> manager" where
  "startTransfer fileId st =
     (case map_get (sendingFiles st) fileId of
        None \<Rightarrow> st
      | Some transferFile \<Rightarrow>
          st\<lparr>sendingFiles :=
               map_set (sendingFiles st) fileId (transferFile\<lparr>tf_status := TRANSFERRING\<rparr>),
             activeTransfers := activeTransfers st + 1\<rparr>)"

text \<open>
  \<^verbatim>\<open>processTransferQueue\<close>: while the queue is not empty and a slot is free, shift the
  first id and start it (\<^verbatim>\<open>if (fileId)\<close> skips the empty string).
\<close>

function processTransferQueue :: "manager \<Rightarrow> manager" where
  "processTransferQueue st =
     (case transferQueue st of
        [] \<Rightarrow> st
      | fileId # rest \<Rightarrow>
          if activeTransfers st < maxConcurrentTransfers (config st)
          then processTransferQueue
                 (if fileId \<noteq> [] then startTransfer fileId (st\<lparr>transferQueue := rest\<rparr>)
                  else st\<lparr>transferQueue := rest\<rparr>)
          else st)"
  by pat_completeness auto
termination
  by (relation "measure (\<lambda>st. length (transferQueue st))")
    (auto simp: startTransfer_def split: option.splits)

declare processTransferQueue.simps [simp del]

subsection \<open>Sending\<close>

text \<open>
  \<^verbatim>\<open>sendFile\<close>, run to completion without other events in between. The fresh id of
  \<^verbatim>\<open>generateFileId\<close> and the clock are parameters. A chunk size of 0 gives no result (the
  chunk count is not a number and the loop of \<^verbatim>\<open>prepareFileChunks\<close> need not end).
\<close>

definition sendFile ::
  "subtle_crypto \<Rightarrow> string \<Rightarrow> nat \<Rightarrow> File \<Rightarrow> manager \<Rightarrow> ((error + string) \<times> manager) option" where
  "sendFile crypto fileId now file st =
     (case new_transfer (config st) fileId file now of
        None \<Rightarrow> None
      | Some transferFile0 \<Rightarrow>
          (let transferFile = prepareFileChunks (config st) crypto transferFile0;
               st1 = st\<lparr>sendingFiles := map_set (sendingFiles st) fileId transferFile\<rparr>
           in case sendFileInfo transferFile st1 of
                (Some e, st2) \<Rightarrow>
                  Some (Inl (Error ''Failed to send file''),
                        st2\<lparr>sendingFiles := map_delete (sendingFiles st2) fileId\<rparr>)
              | (None, st2) \<Rightarrow>
                  Some (Inr fileId,
                        processTransferQueue
                          (st2\<lparr>transferQueue := transferQueue st2 @ [fileId]\<rparr>))))"

definition handleTransferError :: "string \<Rightarrow> manager \<Rightarrow> manager" where
  "handleTransferError err st = console_log (''Transfer error: '' @ err) st"

definition sendFileChunk :: "FileChunk \<Rightarrow> string \<Rightarrow> manager \<Rightarrow> manager" where
  "sendFileChunk chunk fileId st =
     (case dataChannel st of
        None \<Rightarrow> console_log ''Data channel is not open'' st
      | Some ch \<Rightarrow>
          if ch_readyState ch \<noteq> ch_open then console_log ''Data channel is not open'' st
          else
            (case channel_send
                    (TextFrame (ChunkHeaderMsg fileId (chunk_id chunk) (chunk_index chunk)
                       (chunk_size chunk) (chunk_checksum chunk))) ch of
               Inl e \<Rightarrow>
                 handleTransferError (''Failed to send chunk '' @ to_radix 10 (chunk_index chunk))
                   (console_log ''Failed to send file chunk'' st)
             | Inr ch1 \<Rightarrow>
                 (case channel_send (BinaryFrame (chunk_data chunk)) ch1 of
                    Inl e \<Rightarrow>
                      handleTransferError
                        (''Failed to send chunk '' @ to_radix 10 (chunk_index chunk))
                        (console_log ''Failed to send file chunk''
                           (st\<lparr>dataChannel := Some ch1\<rparr>))
                  | Inr ch2 \<Rightarrow>
                      updateSendProgress fileId (chunk_size chunk)
                        (emit (ChunkSentEv fileId (chunk_index chunk))
                           (st\<lparr>dataChannel := Some ch2\<rparr>)))))"

definition handleChunkRequest :: "string \<Rightarrow> nat \<Rightarrow> manager \<Rightarrow> manager" where
  "handleChunkRequest fileId chunkIndex st =
     (case map_get (sendingFiles st) fileId of
        None \<Rightarrow> console_log (''Transfer file not found: '' @ fileId) st
      | Some transferFile \<Rightarrow>
          if chunkIndex < length (tf_chunks transferFile)
          then sendFileChunk (tf_chunks transferFile ! chunkIndex) fileId st
          else console_log (''Chunk not found: '' @ to_radix 10 chunkIndex) st)"

subsection \<open>Receiving\<close>

definition handleFileInfo ::
  "nat \<Rightarrow> string \<Rightarrow> string \<Rightarrow> string \<Rightarrow> nat \<Rightarrow> manager \<Rightarrow> error option \<times> manager" where
  "handleFileInfo now fileId fileName fileType totalChunks st =
     (let transferFile =
            \<lparr>tf_id = fileId,
             tf_file = \<lparr>file_name = fileName, file_type = fileType, file_bytes = []\<rparr>,
             tf_chunks = [], tf_receivedChunks = [], tf_totalChunks = totalChunks,
             tf_status = PENDING, tf_startTime = now, tf_lastProgressTime = now,
             tf_transferredSize = 0, tf_retryCount = 0\<rparr>
      in sendControlMessage (ChunkRequestMsg fileId 0)
           (st\<lparr>receivingFiles := map_set (receivingFiles st) fileId transferFile\<rparr>))"

text \<open>
  \<^verbatim>\<open>handleFileChunk\<close> only writes the byte length to the console; its comment says that
  a real implementation would pair the data with the chunk header received before it.
\<close>

definition handleFileChunk :: "byte list \<Rightarrow> manager \<Rightarrow> manager" where
  "handleFileChunk bytes st =
     console_log (''Received file chunk: '' @ to_radix 10 (length bytes)) st"

text \<open>
  \<^verbatim>\<open>Uint8Array.prototype.set(source, offset)\<close>: a \<^verbatim>\<open>RangeError\<close> when the source does not
  fit behind the offset.
\<close>

definition view_set :: "byte list \<Rightarrow> byte list \<Rightarrow> nat \<Rightarrow> error + byte list" where
  "view_set view source offset =
     (if offset + length source \<le> length view
      then Inr (take offset view @ source @ drop (offset + length source) view)
      else Inl RangeError)"

fun copy_chunks :: "FileChunk list \<Rightarrow> nat \<Rightarrow> byte list \<Rightarrow> error + byte list" where
  "copy_chunks [] offset combinedView = Inr combinedView"
| "copy_chunks (chunk # chunks) offset combinedView =
     (case view_set combinedView (chunk_data chunk) offset of
        Inl e \<Rightarrow> Inl e
      | Inr combinedView' \<Rightarrow> copy_chunks chunks (offset + chunk_size chunk) combinedView')"

text \<open>
  \<^verbatim>\<open>reconstructFile\<close>: the received chunks sorted by index (\<^verbatim>\<open>Array.prototype.sort\<close> is
  stable, as \<open>sort_key\<close> is), copied one after the other into a zero-filled buffer of the
  sum of their sizes.
\<close>

definition reconstructFile :: "TransferringFile \<Rightarrow> error + File" where
  "reconstructFile transferFile =
     (let chunks = sort_key chunk_index (map_values (tf_receivedChunks transferFile));
          totalSize = fold (\<lambda>chunk sum. sum + chunk_size chunk) chunks 0
      in case copy_chunks chunks 0 (replicate totalSize 0) of
           Inl e \<Rightarrow> Inl e
         | Inr combinedBuffer \<Rightarrow>
             Inr \<lparr>file_name = file_name (tf_file transferFile),
                  file_type = file_type (tf_file transferFile),
                  file_bytes = combinedBuffer\<rparr>)"

definition completeTransfer :: "string \<Rightarrow> bool \<Rightarrow> manager \<Rightarrow> error option \<times> manager" where
  "completeTransfer fileId isSender st =
     (case (if isSender then map_get (sendingFiles st) fileId
            else map_get (receivingFiles st) fileId) of
        None \<Rightarrow> (None, st)
      | Some transferFile \<Rightarrow>
          if isSender then
            (case sendControlMessage (TransferCompleteMsg fileId)
                    (st\<lparr>sendingFiles := map_delete (sendingFiles st) fileId\<rparr>) of
               (Some e, st1) \<Rightarrow> (Some e, st1)
             | (None, st1) \<Rightarrow>
                 (None, processTransferQueue (st1\<lparr>activeTransfers := activeTransfers st1 - 1\<rparr>)))
          else
            (case reconstructFile (transferFile\<lparr>tf_status := COMPLETED\<rparr>) of
               Inl e \<Rightarrow>
                 (Some e,
                  st\<lparr>receivingFiles :=
                       map_set (receivingFiles st) fileId (transferFile\<lparr>tf_status := COMPLETED\<rparr>)\<rparr>)
             | Inr file \<Rightarrow>
                 (let st1 = emit (CompletedEv fileId file)
                              (st\<lparr>receivingFiles := map_delete (receivingFiles st) fileId\<rparr>)
                  in (None,
                      processTransferQueue (st1\<lparr>activeTransfers := activeTransfers st1 - 1\<rparr>)))))"

definition handleChunkAck :: "string \<Rightarrow> nat \<Rightarrow> manager \<Rightarrow> error option \<times> manager" where
  "handleChunkAck fileId chunkIndex st =
     (case map_get (sendingFiles st) fileId of
        None \<Rightarrow> (None, st)
      | Some transferFile \<Rightarrow>
          if chunkIndex + 1 < tf_totalChunks transferFile
          then sendControlMessage (ChunkRequestMsg fileId (chunkIndex + 1)) st
          else completeTransfer fileId True st)"

definition handleTransferComplete :: "string \<Rightarrow> manager \<Rightarrow> error option \<times> manager" where
  "handleTransferComplete fileId st = completeTransfer fileId False st"

text \<open>
  \<^verbatim>\<open>handleControlMessage\<close>. A \<^verbatim>\<open>chunk-header\<close> has no case of its own and falls to the
  default, as every unknown type does.
\<close>

fun control_type :: "control \<Rightarrow> string" where
  "control_type (FileInfoMsg a b c d e f g) = ''file-info''"
| "control_type (ChunkRequestMsg a b) = ''chunk-request''"
| "control_type (ChunkAckMsg a b) = ''chunk-ack''"
| "control_type (ChunkHeaderMsg a b c d e) = ''chunk-header''"
| "control_type (TransferCompleteMsg a) = ''transfer-complete''"
| "control_type (TransferErrorMsg a) = ''transfer-error''"
| "control_type (UnknownMsg t) = t"

fun handleControlMessage :: "nat \<Rightarrow> control \<Rightarrow> manager \<Rightarrow> error option \<times> manager" where
  "handleControlMessage now (FileInfoMsg fileId fileName fileSize fileType totalChunks csz chk) st =
     handleFileInfo now fileId fileName fileType totalChunks st"
| "handleControlMessage now (ChunkRequestMsg fileId chunkIndex) st =
     (None, handleChunkRequest fileId chunkIndex st)"
| "handleControlMessage now (ChunkAckMsg fileId chunkIndex) st =
     handleChunkAck fileId chunkIndex st"
| "handleControlMessage now (TransferCompleteMsg fileId) st = handleTransferComplete fileId st"
| "handleControlMessage now (TransferErrorMsg err) st = (None, handleTransferError err st)"
| "handleControlMessage now message st =
     (None, console_log (''Unknown control message type: '' @ control_type message) st)"

text \<open>\<^verbatim>\<open>handleDataChannelMessage\<close>: whatever a handler throws is caught and logged.\<close>

definition handleDataChannelMessage :: "nat \<Rightarrow> incoming \<Rightarrow> manager \<Rightarrow> manager" where
  "handleDataChannelMessage now d st =
     (case d of
        StringData None \<Rightarrow> console_log ''Error handling data channel message'' st
      | StringData (Some message) \<Rightarrow>
          (case handleControlMessage now message st of
             (Some e, st') \<Rightarrow> console_log ''Error handling data channel message'' st'
           | (None, st') \<Rightarrow> st')
      | ArrayBufferData bytes \<Rightarrow> handleFileChunk bytes st
      | OtherData \<Rightarrow> st)"

subsection \<open>Closing, cancelling, pausing\<close>

text \<open>
  The two \<^verbatim>\<open>forEach\<close> loops of \<^verbatim>\<open>handleDataChannelClose\<close>: every entry is marked failed
  and one \<^verbatim>\<open>failed\<close> event is emitted for it.
\<close>

fun fail_each :: "(string \<times> TransferringFile) list \<Rightarrow> manager
    \<Rightarrow> (string \<times> TransferringFile) list \<times> manager" where
  "fail_each [] st = ([], st)"
| "fail_each ((fileId, transferFile) # entries) st =
     (let st1 = emit (FailedEv fileId ''Data channel closed'') st;
          (entries', st2) = fail_each entries st1
      in ((fileId, transferFile\<lparr>tf_status := FAILED\<rparr>) # entries', st2))"

definition fail_all :: "manager \<Rightarrow> manager" where
  "fail_all st =
     (let (sending, st1) = fail_each (sendingFiles st) st;
          (receiving, st2) = fail_each (receivingFiles st) st1
      in st2\<lparr>sendingFiles := sending, receivingFiles := receiving\<rparr>)"

definition clear_all :: "manager \<Rightarrow> manager" where
  "clear_all st =
     st\<lparr>sendingFiles := [], receivingFiles := [], transferQueue := [], activeTransfers := 0\<rparr>"

definition handleDataChannelClose :: "manager \<Rightarrow> manager" where
  "handleDataChannelClose st = clear_all (fail_all st)"

definition cancelTransfer :: "string \<Rightarrow> manager \<Rightarrow> manager" where
  "cancelTransfer fileId st =
     (let sendingFile = map_get (sendingFiles st) fileId;
          receivingFile = map_get (receivingFiles st) fileId;
          st1 = (if sendingFile \<noteq> None
                 then emit (CancelledEv fileId)
                        (st\<lparr>sendingFiles := map_delete (sendingFiles st) fileId\<rparr>)
                 else st);
          st2 = (if receivingFile \<noteq> None
                 then emit (CancelledEv fileId)
                        (st1\<lparr>receivingFiles := map_delete (receivingFiles st1) fileId\<rparr>)
                 else st1);
          st3 = st2\<lparr>transferQueue := remove1 fileId (transferQueue st2)\<rparr>
      in processTransferQueue (st3\<lparr>activeTransfers := max 0 (activeTransfers st3 - 1)\<rparr>))"

definition pauseTransfer :: "string \<Rightarrow> manager \<Rightarrow> manager" where
  "pauseTransfer fileId st =
     (case map_get (sendingFiles st) fileId of
        Some transferFile \<Rightarrow>
          if tf_status transferFile = TRANSFERRING
          then st\<lparr>sendingFiles :=
                    map_set (sendingFiles st) fileId (transferFile\<lparr>tf_status := PAUSED\<rparr>)\<rparr>
          else st
      | None \<Rightarrow>
          (case map_get (receivingFiles st) fileId of
             Some transferFile \<Rightarrow>
               if tf_status transferFile = TRANSFERRING
               then st\<lparr>receivingFiles :=
                         map_set (receivingFiles st) fileId (transferFile\<lparr>tf_status := PAUSED\<rparr>)\<rparr>
               else st
           | None \<Rightarrow> st))"

definition resumeTransfer :: "string \<Rightarrow> manager \<Rightarrow> manager" where
  "resumeTransfer fileId st =
     (case map_get (sendingFiles st) fileId of
        Some transferFile \<Rightarrow>
          if tf_status transferFile = PAUSED
          then processTransferQueue
                 (st\<lparr>sendingFiles :=
                       map_set (sendingFiles st) fileId (transferFile\<lparr>tf_status := TRANSFERRING\<rparr>),
                     transferQueue := transferQueue st @ [fileId]\<rparr>)
          else st
      | None \<Rightarrow>
          (case map_get (receivingFiles st) fileId of
             Some transferFile \<Rightarrow>
               if tf_status transferFile = PAUSED
               then st\<lparr>receivingFiles :=
                         map_set (receivingFiles st) fileId
                           (transferFile\<lparr>tf_status := TRANSFERRING\<rparr>)\<rparr>
               else st
           | None \<Rightarrow> st))"

section \<open>Concrete inputs\<close>

text \<open>Small files, transfers and manager states on which the statements below are run.\<close>

definition example_file :: File where
  "example_file =
     \<lparr>file_name = ''a.bin'', file_type = ''text/plain'', file_bytes = [1, 2, 3, 4, 5]\<rparr>"

definition example_transfer :: "string \<Rightarrow> FileTransferStatus \<Rightarrow> TransferringFile" where
  "example_transfer fileId status =
     \<lparr>tf_id = fileId, tf_file = example_file, tf_chunks = [], tf_receivedChunks = [],
      tf_totalChunks = 3, tf_status = status, tf_startTime = 0, tf_lastProgressTime = 0,
      tf_transferredSize = 0, tf_retryCount = 0\<rparr>"

definition open_channel :: channel where
  "open_channel = \<lparr>ch_readyState = ch_open, ch_rejects = False, ch_outbox = []\<rparr>"

text \<open>A receiver: a fresh manager with the default configuration on an open channel.\<close>

definition receiver0 :: manager where
  "receiver0 = setDataChannel open_channel (new_manager DEFAULT_CONFIG)"

text \<open>
  The receiver after the \<^verbatim>\<open>file-info\<close> of a one-chunk file of three bytes and the
  \<^verbatim>\<open>chunk-header\<close> of its only chunk, whose checksum is the sender's for the bytes 1, 2, 3.
\<close>

definition receiver_after_header :: manager where
  "receiver_after_header =
     handleDataChannelMessage 0
       (StringData (Some (ChunkHeaderMsg ''f'' ''f-0'' 0 3 (Some (calculateChecksum None [1, 2, 3])))))
       (handleDataChannelMessage 0
          (StringData (Some (FileInfoMsg ''f'' ''a.bin'' 3 ''text/plain'' 1 65536 True)))
          receiver0)"

text \<open>A sender that admits one transfer at a time, and its state after a \<^verbatim>\<open>sendFile\<close>.\<close>

definition sender0 :: manager where
  "sender0 =
     setDataChannel open_channel
       (new_manager (DEFAULT_CONFIG\<lparr>chunkSize := 2, maxConcurrentTransfers := 1,
          enableChecksum := False\<rparr>))"

definition after_sendFile :: "string \<Rightarrow> manager \<Rightarrow> manager" where
  "after_sendFile fileId st =
     (case sendFile None fileId 0 example_file st of
        Some (result, st') \<Rightarrow> st'
      | None \<Rightarrow> st)"

section \<open>The signaling manager\<close>

text \<open>
  The connection life cycle of \<^verbatim>\<open>src/lib/webRTC/manager/signaling.ts\<close>. Every
  \<^verbatim>\<open>new WebSocket\<close> gets the next number; the browser's callbacks on a socket, the expiry
  of a reconnect timer and the caller's \<^verbatim>\<open>connect\<close> and \<^verbatim>\<open>disconnect\<close> are the inputs of a
  step function. \<open>sg_scheduled\<close> lists the delays \<^verbatim>\<open>attemptReconnect\<close> passed to
  \<^verbatim>\<open>setTimeout\<close>, in order; \<open>sg_pending\<close> holds the sockets whose \<^verbatim>\<open>connect\<close> promise is
  not settled yet. The messages sent to the server are not part of this model.
\<close>

datatype SignalingState = DISCONNECTED | CONNECTING | CONNECTED | ERROR

datatype signaling_event = StateChangeEv SignalingState | ErrorEv string

record signaling =
  sg_ws :: "nat option"
  sg_currentUserId :: "string option"
  sg_currentRoomId :: "string option"
  sg_state :: SignalingState
  reconnectAttempts :: nat
  maxReconnectAttempts :: nat
  reconnectDelay :: nat
  sg_heartbeat :: bool
  sg_supported :: bool
  sg_url_valid :: bool
  sg_sockets :: nat
  sg_pending :: "nat list"
  sg_scheduled :: "nat list"
  sg_timers :: nat
  sg_emitted :: "signaling_event list"

definition new_signaling :: signaling where
  "new_signaling =
     \<lparr>sg_ws = None, sg_currentUserId = None, sg_currentRoomId = None, sg_state = DISCONNECTED,
      reconnectAttempts = 0, maxReconnectAttempts = 5, reconnectDelay = 1000,
      sg_heartbeat = False, sg_supported = True, sg_url_valid = True, sg_sockets = 0,
      sg_pending = [], sg_scheduled = [], sg_timers = 0, sg_emitted = []\<rparr>"

definition sg_emit :: "signaling_event \<Rightarrow> signaling \<Rightarrow> signaling" where
  "sg_emit ev s = s\<lparr>sg_emitted := sg_emitted s @ [ev]\<rparr>"

definition setState :: "SignalingState \<Rightarrow> signaling \<Rightarrow> signaling" where
  "setState newState s =
     (if sg_state s \<noteq> newState then sg_emit (StateChangeEv newState) (s\<lparr>sg_state := newState\<rparr>)
      else s)"

text \<open>
  \<^verbatim>\<open>connect\<close> up to the point where it awaits the socket. A constructor that throws
  rejects the promise at once, which \<^verbatim>\<open>connect\<close> catches.
\<close>

definition connect :: "string \<Rightarrow> signaling \<Rightarrow> signaling" where
  "connect userId s =
     (if sg_state s = CONNECTED \<or> sg_state s = CONNECTING then s
      else if \<not> sg_supported s then s
      else
        (let s1 = setState CONNECTING (s\<lparr>sg_currentUserId := Some userId\<rparr>)
         in if sg_url_valid s1
            then s1\<lparr>sg_ws := Some (sg_sockets s1), sg_sockets := sg_sockets s1 + 1,
                    sg_pending := sg_pending s1 @ [sg_sockets s1]\<rparr>
            else sg_emit (ErrorEv ''Failed to connect to signaling server'')
                   (setState ERROR s1)))"

definition ws_onopen :: "nat \<Rightarrow> signaling \<Rightarrow> signaling" where
  "ws_onopen k s =
     (setState CONNECTED s)\<lparr>reconnectAttempts := 0, sg_heartbeat := True,
        sg_pending := removeAll k (sg_pending s)\<rparr>"

definition ws_onerror :: "nat \<Rightarrow> signaling \<Rightarrow> signaling" where
  "ws_onerror k s =
     (let s1 = sg_emit (ErrorEv ''WebSocket connection error'') s
      in if k \<in> set (sg_pending s1)
         then (sg_emit (ErrorEv ''Failed to connect to signaling server'') (setState ERROR s1))
                \<lparr>sg_pending := removeAll k (sg_pending s1)\<rparr>
         else s1)"

definition attemptReconnect :: "signaling \<Rightarrow> signaling" where
  "attemptReconnect s =
     (if reconnectAttempts s \<ge> maxReconnectAttempts s
      then sg_emit (ErrorEv ''Max reconnection attempts reached'') s
      else
        (let s1 = s\<lparr>reconnectAttempts := reconnectAttempts s + 1\<rparr>;
             delay = reconnectDelay s1 * 2 ^ (reconnectAttempts s1 - 1)
         in s1\<lparr>sg_scheduled := sg_scheduled s1 @ [delay], sg_timers := sg_timers s1 + 1\<rparr>))"

definition ws_onclose :: "nat \<Rightarrow> nat \<Rightarrow> signaling \<Rightarrow> signaling" where
  "ws_onclose k code s =
     (let s1 = (setState DISCONNECTED s)\<lparr>sg_heartbeat := False\<rparr>
      in if code \<noteq> 1000 \<and> reconnectAttempts s1 < maxReconnectAttempts s1
         then attemptReconnect s1
         else s1)"

text \<open>
  The callback of the reconnect timer, when one is pending: \<^verbatim>\<open>if (this.currentUserId)\<close>
  lets neither \<^verbatim>\<open>null\<close> nor the empty string through.
\<close>

definition reconnect_timer :: "signaling \<Rightarrow> signaling" where
  "reconnect_timer s =
     (if sg_timers s = 0 then s
      else
        (let s1 = s\<lparr>sg_timers := sg_timers s - 1\<rparr>
         in case sg_currentUserId s1 of
              Some userId \<Rightarrow> if userId \<noteq> [] then connect userId s1 else s1
            | None \<Rightarrow> s1))"

definition disconnect :: "signaling \<Rightarrow> signaling" where
  "disconnect s =
     (setState DISCONNECTED (s\<lparr>sg_heartbeat := False, sg_ws := None\<rparr>))
       \<lparr>sg_currentUserId := None, sg_currentRoomId := None, reconnectAttempts := 0\<rparr>"

definition setReconnectConfig :: "nat \<Rightarrow> nat \<Rightarrow> signaling \<Rightarrow> signaling" where
  "setReconnectConfig maxAttempts delay s =
     s\<lparr>maxReconnectAttempts := maxAttempts, reconnectDelay := delay\<rparr>"

datatype sg_input =
  Connect string | WsOpen nat | WsError nat | WsClose nat nat | ReconnectTimer | Disconnect

fun sg_step :: "sg_input \<Rightarrow> signaling \<Rightarrow> signaling" where
  "sg_step (Connect userId) s = connect userId s"
| "sg_step (WsOpen k) s = ws_onopen k s"
| "sg_step (WsError k) s = ws_onerror k s"
| "sg_step (WsClose k code) s = ws_onclose k code s"
| "sg_step ReconnectTimer s = reconnect_timer s"
| "sg_step Disconnect s = disconnect s"

definition sg_run :: "sg_input list \<Rightarrow> signaling \<Rightarrow> signaling" where
  "sg_run inputs s = fold sg_step inputs s"

fun resets_counter :: "sg_input \<Rightarrow> bool" where
  "resets_counter (WsOpen k) = True"
| "resets_counter Disconnect = True"
| "resets_counter other = False"

text \<open>The inputs on which \<^verbatim>\<open>attemptReconnect\<close> schedules a timer: a close with a code other
  than 1000 while attempts remain.\<close>

fun schedules_reconnect :: "sg_input \<Rightarrow> signaling \<Rightarrow> bool" where
  "schedules_reconnect (WsClose k code) s =
     (code \<noteq> 1000 \<and> reconnectAttempts s < maxReconnectAttempts s)"
| "schedules_reconnect other s = False"

section \<open>The relay's room service\<close>

text \<open>
  \<^verbatim>\<open>RoomService\<close> of the relay (\<^verbatim>\<open>roomService.ts\<close>). A client's WebSocket is a handle;
  \<open>delivered\<close> lists what \<^verbatim>\<open>sendToClient\<close> handed to which socket, in order. The sockets
  are taken to accept every \<^verbatim>\<open>send\<close>.
\<close>

datatype MessageType = JOIN | LEAVE | SIGNAL | MSG_ERROR

record SignalingMessage =
  msg_type :: MessageType
  msg_from :: string
  msg_to :: string
  msg_roomId :: string

record Client =
  client_id :: string
  client_ws :: nat
  client_roomId :: string

record Room =
  room_id :: string
  room_name :: string
  room_clients :: "(string \<times> Client) list"

record RoomService =
  rooms :: "(string \<times> Room) list"
  clients :: "(string \<times> Client) list"
  delivered :: "(nat \<times> SignalingMessage) list"

definition new_RoomService :: RoomService where
  "new_RoomService = \<lparr>rooms = [], clients = [], delivered = []\<rparr>"

definition sendToClient :: "Client \<Rightarrow> SignalingMessage \<Rightarrow> RoomService \<Rightarrow> RoomService" where
  "sendToClient client message st = st\<lparr>delivered := delivered st @ [(client_ws client, message)]\<rparr>"

text \<open>\<^verbatim>\<open>createRoom\<close>; the identifier of \<^verbatim>\<open>uuidv4()\<close> is a parameter.\<close>

definition createRoom :: "string \<Rightarrow> string \<Rightarrow> RoomService \<Rightarrow> Room \<times> RoomService" where
  "createRoom uuid name st =
     (let room = \<lparr>room_id = uuid, room_name = name, room_clients = []\<rparr>
      in (room, st\<lparr>rooms := map_set (rooms st) uuid room\<rparr>))"

definition getRoom :: "RoomService \<Rightarrow> string \<Rightarrow> Room option" where
  "getRoom st roomId = map_get (rooms st) roomId"

definition deleteRoom :: "string \<Rightarrow> RoomService \<Rightarrow> bool \<times> RoomService" where
  "deleteRoom roomId st =
     (map_has (rooms st) roomId, st\<lparr>rooms := map_delete (rooms st) roomId\<rparr>)"

definition getRoomClients :: "RoomService \<Rightarrow> string \<Rightarrow> Client list" where
  "getRoomClients st roomId =
     (case map_get (rooms st) roomId of
        None \<Rightarrow> []
      | Some room \<Rightarrow> map_values (room_clients room))"

definition hasRoom :: "RoomService \<Rightarrow> string \<Rightarrow> bool" where
  "hasRoom st roomId = map_has (rooms st) roomId"

definition hasClientInRoom :: "RoomService \<Rightarrow> string \<Rightarrow> string \<Rightarrow> bool" where
  "hasClientInRoom st roomId clientId =
     (case map_get (rooms st) roomId of
        None \<Rightarrow> False
      | Some room \<Rightarrow> map_has (room_clients room) clientId)"

definition getClient :: "RoomService \<Rightarrow> string \<Rightarrow> Client option" where
  "getClient st clientId = map_get (clients st) clientId"

definition join_message :: "string \<Rightarrow> string \<Rightarrow> string \<Rightarrow> SignalingMessage" where
  "join_message sender receiver roomId =
     \<lparr>msg_type = JOIN, msg_from = sender, msg_to = receiver, msg_roomId = roomId\<rparr>"

definition leave_message :: "string \<Rightarrow> string \<Rightarrow> string \<Rightarrow> SignalingMessage" where
  "leave_message sender receiver roomId =
     \<lparr>msg_type = LEAVE, msg_from = sender, msg_to = receiver, msg_roomId = roomId\<rparr>"

text \<open>The \<^verbatim>\<open>forEach\<close> of \<^verbatim>\<open>joinRoom\<close> over the room's clients, the new one included.\<close>

fun notify_join :: "string \<Rightarrow> Client \<Rightarrow> Client list \<Rightarrow> RoomService \<Rightarrow> RoomService" where
  "notify_join roomId client [] st = st"
| "notify_join roomId client (otherClient # cs) st =
     notify_join roomId client cs
       (if client_id otherClient \<noteq> client_id client
        then sendToClient client
               (join_message (client_id otherClient) (client_id client) roomId)
               (sendToClient otherClient
                  (join_message (client_id client) (client_id otherClient) roomId) st)
        else st)"

definition joinRoom :: "string \<Rightarrow> Client \<Rightarrow> RoomService \<Rightarrow> RoomService" where
  "joinRoom roomId client st =
     (let room0 = (case map_get (rooms st) roomId of
                     None \<Rightarrow> \<lparr>room_id = roomId, room_name = ''default'', room_clients = []\<rparr>
                   | Some room \<Rightarrow> room);
          room = room0\<lparr>room_clients := map_set (room_clients room0) (client_id client) client\<rparr>;
          st1 = st\<lparr>rooms := map_set (rooms st) roomId room,
                   clients := map_set (clients st) (client_id client) client\<rparr>
      in notify_join roomId client (map_values (room_clients room)) st1)"

text \<open>The \<^verbatim>\<open>forEach\<close> of \<^verbatim>\<open>leaveRoom\<close> over the clients that remain.\<close>

fun notify_leave :: "string \<Rightarrow> string \<Rightarrow> Client list \<Rightarrow> RoomService \<Rightarrow> RoomService" where
  "notify_leave clientId roomId [] st = st"
| "notify_leave clientId roomId (otherClient # cs) st =
     notify_leave clientId roomId cs
       (sendToClient otherClient (leave_message clientId (client_id otherClient) roomId) st)"

text \<open>
  \<^verbatim>\<open>leaveRoom\<close> looks the room up under the \<^verbatim>\<open>roomId\<close> field of the registered client, and
  deletes an emptied room under the room's own \<^verbatim>\<open>id\<close>.
\<close>

definition leaveRoom :: "string \<Rightarrow> RoomService \<Rightarrow> RoomService" where
  "leaveRoom clientId st =
     (case map_get (clients st) clientId of
        None \<Rightarrow> st
      | Some client \<Rightarrow>
          (case map_get (rooms st) (client_roomId client) of
             None \<Rightarrow> st
           | Some room0 \<Rightarrow>
               (let room = room0\<lparr>room_clients := map_delete (room_clients room0) clientId\<rparr>;
                    st1 = st\<lparr>rooms := map_set (rooms st) (client_roomId client) room,
                             clients := map_delete (clients st) clientId\<rparr>;
                    st2 = notify_leave clientId (client_roomId client)
                            (map_values (room_clients room)) st1
                in if length (room_clients room) = 0
                   then st2\<lparr>rooms := map_delete (rooms st2) (room_id room)\<rparr>
                   else st2)))"

datatype room_op = JoinRoom string Client | LeaveRoom string

fun room_step :: "room_op \<Rightarrow> RoomService \<Rightarrow> RoomService" where
  "room_step (JoinRoom roomId client) st = joinRoom roomId client st"
| "room_step (LeaveRoom clientId) st = leaveRoom clientId st"

definition room_run :: "room_op list \<Rightarrow> RoomService" where
  "room_run ops = fold room_step ops new_RoomService"



text \<open>
  What the calls of this class keep true of the two-level table: keys are not repeated,
  a room is stored under its own id, and a client under its own id.
\<close>

definition wf_clients :: "(string \<times> Client) list \<Rightarrow> bool" where
  "wf_clients m = (distinct (map fst m) \<and> list_all (\<lambda>(k, c). client_id c = k) m)"

definition wf_rooms :: "RoomService \<Rightarrow> bool" where
  "wf_rooms st =
     (distinct (map fst (rooms st)) \<and>
      list_all (\<lambda>(k, room). room_id room = k \<and> room_clients room \<noteq> [] \<and>
                  wf_clients (room_clients room)) (rooms st))"


text \<open>Two clients of the default room, as \<^verbatim>\<open>handleConnection\<close> builds them.\<close>

definition client_u1 :: Client where
  "client_u1 = \<lparr>client_id = ''u1'', client_ws = 1, client_roomId = ''default''\<rparr>"

definition client_u2 :: Client where
  "client_u2 = \<lparr>client_id = ''u2'', client_ws = 2, client_roomId = ''default''\<rparr>"

section \<open>Sending a file in chunks with backpressure\<close>

text \<open>
  \<^verbatim>\<open>WebRTCManager.sendFileInChunks\<close> (\<^verbatim>\<open>src/lib/webRTC/manager/webRTC.ts\<close>). The channel
  is the browser's: what the loop observes of it is a list of observations, one for each
  time the condition of the \<^verbatim>\<open>while\<close> loop reads \<^verbatim>\<open>bufferedAmount\<close>, paired with whether
  the channel would accept a \<^verbatim>\<open>send\<close> at that moment (\<^verbatim>\<open>send\<close> throws otherwise). Between
  the read that ends the wait and the \<^verbatim>\<open>send\<close> there is no \<^verbatim>\<open>await\<close>, so the buffered
  amount at the \<^verbatim>\<open>send\<close> is the one just read. When the observations run out during a
  wait the sender is still waiting. The bookkeeping of the \<^verbatim>\<open>FileTransfer\<close> record (status
  and progress events) does not touch the channel and is left out.
\<close>

definition BUFFER_LIMIT :: nat where
  "BUFFER_LIMIT = 16777216"

definition RTC_CHUNK_SIZE :: nat where
  "RTC_CHUNK_SIZE = 16384"

type_synonym observation = "nat \<times> bool"

datatype send_outcome = SendCompleted | SendWaiting nat | SendFailed nat

text \<open>The \<^verbatim>\<open>while\<close> loop: the first observation that does not exceed the limit ends it.\<close>

fun wait_for_buffer :: "observation list \<Rightarrow> (observation \<times> observation list) option" where
  "wait_for_buffer [] = None"
| "wait_for_buffer ((bufferedAmount, accepts) # rest) =
     (if bufferedAmount > BUFFER_LIMIT then wait_for_buffer rest
      else Some ((bufferedAmount, accepts), rest))"

definition rtc_chunk :: "byte list \<Rightarrow> nat \<Rightarrow> byte list" where
  "rtc_chunk bytes i =
     blob_slice bytes (i * RTC_CHUNK_SIZE) (min (i * RTC_CHUNK_SIZE + RTC_CHUNK_SIZE) (length bytes))"

text \<open>
  The \<^verbatim>\<open>for\<close> loop. \<open>handed\<close> lists what was passed to \<^verbatim>\<open>send\<close>, each chunk with the
  buffered amount read just before.
\<close>

function send_loop ::
  "byte list \<Rightarrow> nat \<Rightarrow> nat \<Rightarrow> observation list \<Rightarrow> (nat \<times> byte list) list
     \<Rightarrow> (nat \<times> byte list) list \<times> send_outcome" where
  "send_loop bytes totalChunks i observations handed =
     (if i < totalChunks
      then (case wait_for_buffer observations of
              None \<Rightarrow> (handed, SendWaiting i)
            | Some ((bufferedAmount, accepts), rest) \<Rightarrow>
                if accepts
                then send_loop bytes totalChunks (Suc i) rest
                       (handed @ [(bufferedAmount, rtc_chunk bytes i)])
                else (handed, SendFailed i))
      else (handed, SendCompleted))"
  by pat_completeness auto
termination
  by (relation "measure (\<lambda>(bytes, totalChunks, i, observations, handed). totalChunks - i)") auto

declare send_loop.simps [simp del]

definition sendFileInChunks ::
  "observation list \<Rightarrow> File \<Rightarrow> (nat \<times> byte list) list \<times> send_outcome" where
  "sendFileInChunks observations file =
     send_loop (file_bytes file) (ceil_div (file_size file) RTC_CHUNK_SIZE) 0 observations []"

text \<open>The observations on which a waiting sender goes on: within the limit.\<close>

definition drained :: "observation \<Rightarrow> bool" where
  "drained ob = (fst ob \<le> BUFFER_LIMIT)"

text \<open>A file of 40000 equal bytes: three chunks of \<^verbatim>\<open>sendFileInChunks\<close>.\<close>

definition example_big_file :: File where
  "example_big_file =
     \<lparr>file_name = ''b.bin'', file_type = ''application/octet-stream'',
      file_bytes = replicate 40000 7\<rparr>"

section \<open>Event emitters\<close>

text \<open>
  The \<^verbatim>\<open>on\<close>, \<^verbatim>\<open>off\<close> and \<^verbatim>\<open>emit\<close> methods of \<^verbatim>\<open>SignalingManager\<close>,
  \<^verbatim>\<open>FileTransferManager\<close> and \<^verbatim>\<open>WebRTCManager\<close> are the same code up to the text of the
  console line. \<^verbatim>\<open>eventListeners\<close> maps an event to an array of functions, which \<^verbatim>\<open>off\<close>
  compares by identity: a listener is named here by a number, and \<open>code\<close> gives the
  function each number stands for. A listener is the application's: a function of the
  event's arguments that changes the application's state (the world), may call \<^verbatim>\<open>on\<close> and
  \<^verbatim>\<open>off\<close> of the manager that is emitting, any number of times and for any event, and may
  throw; it returns the exception it throws, if any, the world it leaves behind and the
  calls it made before it returned or threw. Of the manager's methods a listener calls
  only these two while \<^verbatim>\<open>emit\<close> runs.
\<close>

datatype call = On string nat | Off string nat

type_synonym ('a, 'w) listener = "'a \<Rightarrow> 'w \<Rightarrow> string option \<times> 'w \<times> call list"

type_synonym 's comp = "'s \<Rightarrow> string option \<times> 's"

text \<open>
  The state \<^verbatim>\<open>emit\<close> works on: the table of listeners, the listeners' world, the console,
  and a record of the listener calls made, each with the \<^verbatim>\<open>on\<close> and \<^verbatim>\<open>off\<close> calls it
  issued.
\<close>

record 'w emitter =
  eventListeners :: "(string \<times> nat list) list"
  world :: 'w
  error_log :: "string list"
  invoked :: "(nat \<times> call list) list"

text \<open>\<^verbatim>\<open>this.eventListeners.get(event) || []\<close>.\<close>

definition listeners_of :: "(string \<times> nat list) list \<Rightarrow> string \<Rightarrow> nat list" where
  "listeners_of table event =
     (case map_get table event of None \<Rightarrow> [] | Some listeners \<Rightarrow> listeners)"

text \<open>\<^verbatim>\<open>Array.prototype.indexOf\<close>, \<open>None\<close> for -1, and \<^verbatim>\<open>splice(index, 1)\<close>.\<close>

fun indexOf :: "'x list \<Rightarrow> 'x \<Rightarrow> nat option" where
  "indexOf [] x = None"
| "indexOf (y # ys) x = (if y = x then Some 0 else map_option Suc (indexOf ys x))"

definition splice1 :: "nat \<Rightarrow> 'x list \<Rightarrow> 'x list" where
  "splice1 index xs = take index xs @ drop (index + 1) xs"

text \<open>
  \<^verbatim>\<open>on\<close> pushes onto the event's array and stores it; \<^verbatim>\<open>off\<close> splices the first occurrence
  out of it. Both change the array in place, so the table's entry of an event is the one
  array object throughout. They are \<open>emitter_on\<close> and \<open>emitter_off\<close> here.
\<close>

definition emitter_on ::
  "string \<Rightarrow> nat \<Rightarrow> (string \<times> nat list) list \<Rightarrow> (string \<times> nat list) list" where
  "emitter_on event listener table =
     map_set table event (listeners_of table event @ [listener])"

definition emitter_off ::
  "string \<Rightarrow> nat \<Rightarrow> (string \<times> nat list) list \<Rightarrow> (string \<times> nat list) list" where
  "emitter_off event listener table =
     (case map_get table event of
        None \<Rightarrow> table
      | Some listeners \<Rightarrow>
          (case indexOf listeners listener of
             None \<Rightarrow> table
           | Some index \<Rightarrow> map_set table event (splice1 index listeners)))"

fun do_call :: "call \<Rightarrow> (string \<times> nat list) list \<Rightarrow> (string \<times> nat list) list" where
  "do_call (On event listener) table = emitter_on event listener table"
| "do_call (Off event listener) table = emitter_off event listener table"

text \<open>\<^verbatim>\<open>try { body } catch (error) { handler }\<close>.\<close>

definition try_catch :: "'s comp \<Rightarrow> (string \<Rightarrow> 's comp) \<Rightarrow> 's comp" where
  "try_catch body handler s =
     (case body s of
        (Some err, s') \<Rightarrow> handler err s'
      | (None, s') \<Rightarrow> (None, s'))"

text \<open>
  \<^verbatim>\<open>Array.prototype.forEach\<close> on an array that the callback may change: the length is read
  once, before the first call (here \<open>k + n\<close>, with \<open>n\<close> the indices still to visit); the
  indices \<open>k\<close> are visited in order; at each the array is read as it is then, and an index
  it no longer has is passed over. An exception of the callback ends the loop and
  propagates.
\<close>

fun forEach :: "('s \<Rightarrow> 'x list) \<Rightarrow> ('x \<Rightarrow> 's comp) \<Rightarrow> nat \<Rightarrow> nat \<Rightarrow> 's comp" where
  "forEach array callback k 0 s = (None, s)"
| "forEach array callback k (Suc n) s =
     (if k < length (array s)
      then (case callback (array s ! k) s of
              (Some err, s') \<Rightarrow> (Some err, s')
            | (None, s') \<Rightarrow> forEach array callback (k + 1) n s')
      else forEach array callback (k + 1) n s)"

text \<open>
  The call \<^verbatim>\<open>listener(...args)\<close>: the listener's \<^verbatim>\<open>on\<close> and \<^verbatim>\<open>off\<close> calls act on the table,
  also when it throws afterwards.
\<close>

definition call_listener ::
  "(nat \<Rightarrow> ('a, 'w) listener) \<Rightarrow> nat \<Rightarrow> 'a \<Rightarrow> 'w emitter comp" where
  "call_listener code listener args s =
     (case code listener args (world s) of
        (thrown, w', calls) \<Rightarrow>
          (thrown, s\<lparr>eventListeners := fold do_call calls (eventListeners s),
                     world := w',
                     invoked := invoked s @ [(listener, calls)]\<rparr>))"

definition console_error :: "string \<Rightarrow> 'w emitter comp" where
  "console_error line s = (None, s\<lparr>error_log := error_log s @ [line]\<rparr>)"

text \<open>
  \<^verbatim>\<open>emit\<close>. The array it iterates is the table's entry of the event, the object that \<^verbatim>\<open>on\<close>
  and \<^verbatim>\<open>off\<close> change in place while the loop runs; for an event without an entry it is a
  new empty array and the loop makes no call.
\<close>

definition emit_with ::
  "string \<Rightarrow> (nat \<Rightarrow> ('a, 'w) listener) \<Rightarrow> string \<Rightarrow> 'a \<Rightarrow> 'w emitter comp" where
  "emit_with line code event args s =
     forEach (\<lambda>s'. listeners_of (eventListeners s') event)
       (\<lambda>listener. try_catch (call_listener code listener args)
          (\<lambda>err. console_error (line @ event @ '': '' @ err)))
       0 (length (listeners_of (eventListeners s) event)) s"

definition signaling_emit ::
  "(nat \<Rightarrow> ('a, 'w) listener) \<Rightarrow> string \<Rightarrow> 'a \<Rightarrow> 'w emitter comp" where
  "signaling_emit = emit_with ''Error in signaling event listener for ''"

definition fileTransfer_emit ::
  "(nat \<Rightarrow> ('a, 'w) listener) \<Rightarrow> string \<Rightarrow> 'a \<Rightarrow> 'w emitter comp" where
  "fileTransfer_emit = emit_with ''Error in file transfer event listener for ''"

definition webRTC_emit ::
  "(nat \<Rightarrow> ('a, 'w) listener) \<Rightarrow> string \<Rightarrow> 'a \<Rightarrow> 'w emitter comp" where
  "webRTC_emit = emit_with ''Error in event listener for ''"

text \<open>The listener calls made between two states, in order.\<close>

definition trace_of :: "'w emitter \<Rightarrow> 'w emitter \<Rightarrow> (nat \<times> call list) list" where
  "trace_of before after = drop (length (invoked before)) (invoked after)"

text \<open>No listener of the trace called \<^verbatim>\<open>off\<close> for the event.\<close>

fun removes :: "string \<Rightarrow> call \<Rightarrow> bool" where
  "removes event (On e listener) = False"
| "removes event (Off e listener) = (e = event)"

definition no_off :: "string \<Rightarrow> (nat \<times> call list) list \<Rightarrow> bool" where
  "no_off event trace =
     list_all (\<lambda>(listener, calls). list_all (\<lambda>c. \<not> removes event c) calls) trace"

text \<open>The world after the listeners of the list have run on it in turn, thrown or not.\<close>

definition run_all :: "(nat \<Rightarrow> ('a, 'w) listener) \<Rightarrow> nat list \<Rightarrow> 'a \<Rightarrow> 'w \<Rightarrow> 'w" where
  "run_all code listeners args w =
     fold (\<lambda>listener w'. fst (snd (code listener args w'))) listeners w"

text \<open>
  Listeners on a counter: 0 removes itself from \<^verbatim>\<open>error\<close> and throws, as a handler does
  that is meant to run once; 1 counts the event; 2 registers 1 once more, removes itself
  from another event and throws.
\<close>

definition example_code :: "nat \<Rightarrow> (string, nat) listener" where
  "example_code listener args w =
     (if listener = 0 then (Some ''boom'', w, [Off ''error'' 0])
      else if listener = 1 then (None, w + 1, [])
      else if listener = 2 then (Some ''boom'', w, [On ''error'' 1, Off ''other'' 2])
      else (None, w, []))"

definition emitter0 :: "nat list \<Rightarrow> nat emitter" where
  "emitter0 listeners =
     \<lparr>eventListeners = [(''error'', listeners)], world = 0, error_log = [], invoked = []\<rparr>"

section \<open>Properties\<close>

subsection \<open>Tables in insertion order\<close>

lemma map_get_map_set: "map_get (map_set m k v) k' = (if k' = k then Some v else map_get m k')"
  by (induction m) auto

lemma map_get_None_iff: "map_get m k = None \<longleftrightarrow> k \<notin> fst ` set m"
  by (induction m) (force split: if_splits)+

lemma map_get_Some_mem: "map_get m k = Some v \<Longrightarrow> (k, v) \<in> set m"
  by (induction m) (auto split: if_splits)

lemma keys_map_set: "fst ` set (map_set m k v) = insert k (fst ` set m)"
  by (induction m) (force split: if_splits)+

lemma distinct_map_set: "distinct (map fst m) \<Longrightarrow> distinct (map fst (map_set m k v))"
proof (induction m)
  case Nil
  then show ?case by simp
next
  case (Cons a m)
  obtain k' v' where a: "a = (k', v')" by (cases a)
  show ?case
  proof (cases "k' = k")
    case True
    then show ?thesis using Cons.prems a by simp
  next
    case False
    have "k' \<notin> fst ` set (map_set m k v)"
      using Cons.prems a False by (simp add: keys_map_set)
    then show ?thesis using Cons a False by simp
  qed
qed

lemma set_map_set: "set (map_set m k v) \<subseteq> insert (k, v) (set m)"
  by (induction m) (force split: if_splits)+

lemma set_map_delete: "set (map_delete m k) \<subseteq> set m"
  by (induction m) (force split: if_splits)+

lemma distinct_map_delete: "distinct (map fst m) \<Longrightarrow> distinct (map fst (map_delete m k))"
proof (induction m)
  case Nil
  then show ?case by simp
next
  case (Cons a m)
  then show ?case using set_map_delete [of m k] by (cases a) auto
qed

lemma map_get_map_delete:
  "distinct (map fst m) \<Longrightarrow>
   map_get (map_delete m k) k' = (if k' = k then None else map_get m k')"
proof (induction m)
  case Nil
  then show ?case by simp
next
  case (Cons a m)
  obtain k0 v0 where a: "a = (k0, v0)" by (cases a)
  have d: "distinct (map fst m)" and n: "map_get m k0 = None"
    using Cons.prems a by (simp_all add: map_get_None_iff)
  show ?case
  proof (cases "k0 = k")
    case True
    then show ?thesis using a n by simp
  next
    case False
    then show ?thesis using a Cons.IH [OF d] by auto
  qed
qed

lemma map_set_not_Nil: "map_set m k v \<noteq> []"
  by (cases m) (auto split: if_splits)

lemma key_not_in_map_delete: "distinct (map fst m) \<Longrightarrow> k \<notin> fst ` set (map_delete m k)"
  using map_get_map_delete [of m k k] by (simp add: map_get_None_iff)

subsection \<open>Chunking\<close>

lemma ceil_div_real: "0 < c \<Longrightarrow> ceil_div s c = nat \<lceil>real s / real c\<rceil>"
proof -
  assume c: "0 < c"
  have s: "real s = real (s div c) * real c + real (s mod c)"
    by (metis div_mult_mod_eq of_nat_add of_nat_mult)
  show ?thesis
  proof (cases "s mod c = 0")
    case True
    then have "real s / real c = real (s div c)"
      using c s by simp
    then show ?thesis
      using True by (simp add: ceil_div_def)
  next
    case False
    have "real s / real c = real (s div c) + real (s mod c) / real c"
      using c s by (simp add: field_simps)
    moreover have "0 < real (s mod c) / real c" "real (s mod c) / real c < 1"
      using c False by simp_all
    ultimately have "\<lceil>real s / real c\<rceil> = int (s div c) + 1"
      by (simp add: ceiling_eq_iff)
    then show ?thesis
      using False by (simp add: ceil_div_def)
  qed
qed

lemma prepare_loop_eq:
  "prepare_loop cfg crypto tf i chunks =
     chunks @ map (make_chunk cfg crypto tf) [i..<tf_totalChunks tf]"
proof (induction cfg crypto tf i chunks rule: prepare_loop.induct)
  case (1 cfg crypto transferFile i chunks)
  show ?case
  proof (cases "i < tf_totalChunks transferFile")
    case True
    then show ?thesis
      using "1.IH" by (subst prepare_loop.simps) (simp add: upt_conv_Cons)
  next
    case False
    then show ?thesis
      by (subst prepare_loop.simps) simp
  qed
qed

lemma take_drop_nth: "m + n \<le> length xs \<Longrightarrow> take n (drop m xs) = map ((!) xs) [m..<m + n]"
  by (auto intro!: nth_equalityI)

lemma blob_slice_nth:
  "start \<le> stop \<Longrightarrow> stop \<le> length bytes \<Longrightarrow> blob_slice bytes start stop = map ((!) bytes) [start..<stop]"
  using take_drop_nth [of start "stop - start" bytes] by (simp add: blob_slice_def)

lemma ceil_div_iff: "0 < c \<Longrightarrow> i < ceil_div s c \<longleftrightarrow> i * c < s"
proof -
  assume c: "0 < c"
  have s: "s = s div c * c + s mod c" by simp
  show ?thesis
  proof (cases "s mod c = 0")
    case True
    then have "s = s div c * c" using s by simp
    then have "i * c < s \<longleftrightarrow> i < s div c"
      using c by (metis mult_less_cancel2)
    then show ?thesis using True by (simp add: ceil_div_def)
  next
    case False
    have "i * c < s \<longleftrightarrow> i \<le> s div c"
    proof
      assume "i * c < s"
      then show "i \<le> s div c"
        using c by (metis div_le_mono div_mult_self_is_m less_imp_le_nat)
    next
      assume "i \<le> s div c"
      then have "i * c \<le> s div c * c" by (rule mult_le_mono1)
      moreover have "s div c * c < s" using False s
        by (metis add.right_neutral less_add_same_cancel1 not_gr_zero)
      ultimately show "i * c < s" by (rule le_less_trans)
    qed
    then show ?thesis using False by (simp add: ceil_div_def less_Suc_eq_le)
  qed
qed

lemma ceil_div_covers: "0 < c \<Longrightarrow> s \<le> ceil_div s c * c"
proof -
  assume c: "0 < c"
  have "\<not> ceil_div s c * c < s"
    using ceil_div_iff [OF c, of "ceil_div s c" s] by simp
  then show ?thesis by simp
qed

lemma concat_takes:
  "concat (map (\<lambda>i. take c (drop (i * c) xs)) [0..<n]) = take (n * c) xs"
proof (induction n)
  case 0
  then show ?case by simp
next
  case (Suc n)
  have "take (n * c) xs @ take c (drop (n * c) xs) = take (n * c + c) xs"
    by (simp add: take_add)
  then show ?case using Suc by (simp add: add.commute)
qed

lemma tf_chunks_prepare:
  "tf_chunks (prepareFileChunks cfg crypto tf) = map (make_chunk cfg crypto tf) [0..<tf_totalChunks tf]"
  by (simp add: prepareFileChunks_def prepare_loop_eq)

lemma make_chunk_data:
  assumes "i * chunkSize cfg \<le> file_size (tf_file tf)"
  shows "chunk_data (make_chunk cfg crypto tf i) =
     map ((!) (file_bytes (tf_file tf)))
       [i * chunkSize cfg..<min ((i + 1) * chunkSize cfg) (file_size (tf_file tf))]"
proof -
  let ?stop = "min (i * chunkSize cfg + chunkSize cfg) (file_size (tf_file tf))"
  have "i * chunkSize cfg \<le> ?stop" using assms by simp
  moreover have "?stop \<le> length (file_bytes (tf_file tf))" by (simp add: file_size_def)
  ultimately have "blob_slice (file_bytes (tf_file tf)) (i * chunkSize cfg) ?stop =
      map ((!) (file_bytes (tf_file tf))) [i * chunkSize cfg..<?stop]"
    by (rule blob_slice_nth)
  then show ?thesis by (simp add: make_chunk_def Let_def add.commute)
qed

lemma make_chunk_take:
  "chunk_data (make_chunk cfg crypto tf i) =
     take (chunkSize cfg) (drop (i * chunkSize cfg) (file_bytes (tf_file tf)))"
  by (simp add: make_chunk_def Let_def blob_slice_def file_size_def min_def)

lemma concat_prepared:
  assumes "0 < chunkSize cfg" "tf_totalChunks tf = ceil_div (file_size (tf_file tf)) (chunkSize cfg)"
  shows "concat (map chunk_data (map (make_chunk cfg crypto tf) [0..<tf_totalChunks tf])) =
     file_bytes (tf_file tf)"
proof -
  have "length (file_bytes (tf_file tf)) \<le> tf_totalChunks tf * chunkSize cfg"
    using ceil_div_covers [OF assms(1), of "file_size (tf_file tf)"] assms(2)
    by (simp add: file_size_def)
  moreover have "chunk_data \<circ> make_chunk cfg crypto tf =
      (\<lambda>i. take (chunkSize cfg) (drop (i * chunkSize cfg) (file_bytes (tf_file tf))))"
    by (rule ext) (simp add: make_chunk_take)
  then have "concat (map chunk_data (map (make_chunk cfg crypto tf) [0..<n])) =
      take (n * chunkSize cfg) (file_bytes (tf_file tf))" for n
    by (simp only: map_map concat_takes)
  ultimately show ?thesis by simp
qed

lemma last_chunk_size:
  assumes c: "0 < c" and s: "0 < s"
  shows "min (ceil_div s c * c) s - (ceil_div s c - 1) * c = (if s mod c = 0 then c else s mod c)"
proof (cases "s mod c = 0")
  case True
  then have e: "s = s div c * c" using div_mult_mod_eq [of s c] by simp
  have "0 < s div c" using s c e by (metis mult_is_0 neq0_conv)
  then have "s div c * c - (s div c - 1) * c = c"
    by (metis Suc_diff_1 add_diff_cancel_right' mult_Suc)
  then show ?thesis using True e by (simp add: ceil_div_def)
next
  case False
  have e: "s = s div c * c + s mod c" by simp
  have "s \<le> s div c * c + c" using c
    by (metis e add_le_cancel_left less_imp_le_nat mod_less_divisor)
  then have "min (Suc (s div c) * c) s = s" by (simp add: add.commute)
  moreover have "s - s div c * c = s mod c" by (metis e add_diff_cancel_left')
  ultimately show ?thesis using False by (simp add: ceil_div_def)
qed

lemma prepared_chunks:
  assumes c: "0 < chunkSize cfg"
  shows "\<exists>tf. new_transfer cfg fileId file now = Some tf \<and>
    tf_totalChunks tf = nat \<lceil>real (file_size file) / real (chunkSize cfg)\<rceil> \<and>
    length (tf_chunks (prepareFileChunks cfg crypto tf)) =
      nat \<lceil>real (file_size file) / real (chunkSize cfg)\<rceil> \<and>
    (\<forall>i < length (tf_chunks (prepareFileChunks cfg crypto tf)).
       chunk_index (tf_chunks (prepareFileChunks cfg crypto tf) ! i) = i \<and>
       chunk_data (tf_chunks (prepareFileChunks cfg crypto tf) ! i) =
         map ((!) (file_bytes file))
           [i * chunkSize cfg..<min ((i + 1) * chunkSize cfg) (file_size file)] \<and>
       chunk_size (tf_chunks (prepareFileChunks cfg crypto tf) ! i) =
         min ((i + 1) * chunkSize cfg) (file_size file) - i * chunkSize cfg) \<and>
    (0 < file_size file \<longrightarrow>
       chunk_size (last (tf_chunks (prepareFileChunks cfg crypto tf))) =
         (if file_size file mod chunkSize cfg = 0 then chunkSize cfg
          else file_size file mod chunkSize cfg))"
proof -
  let ?s = "file_size file" and ?c = "chunkSize cfg"
  define tf where "tf = \<lparr>tf_id = fileId, tf_file = file, tf_chunks = [], tf_receivedChunks = [],
                tf_totalChunks = ceil_div ?s ?c, tf_status = PREPARING, tf_startTime = now,
                tf_lastProgressTime = now, tf_transferredSize = 0, tf_retryCount = 0\<rparr>"
  let ?chunks = "tf_chunks (prepareFileChunks cfg crypto tf)"
  have new: "new_transfer cfg fileId file now = Some tf"
    using c by (simp add: new_transfer_def totalChunks_of_def tf_def)
  have total: "tf_totalChunks tf = nat \<lceil>real ?s / real ?c\<rceil>"
    using ceil_div_real [OF c, of ?s] by (simp add: tf_def)
  have f: "tf_file tf = file" and n: "tf_totalChunks tf = ceil_div ?s ?c"
    by (simp_all add: tf_def)
  have chunks: "?chunks = map (make_chunk cfg crypto tf) [0..<ceil_div ?s ?c]"
    by (simp add: tf_chunks_prepare n)
  have len: "length ?chunks = ceil_div ?s ?c"
    by (simp add: chunks)
  have each: "chunk_index (?chunks ! i) = i \<and>
       chunk_data (?chunks ! i) =
         map ((!) (file_bytes file)) [i * ?c..<min ((i + 1) * ?c) ?s] \<and>
       chunk_size (?chunks ! i) = min ((i + 1) * ?c) ?s - i * ?c"
    if i: "i < length ?chunks" for i
  proof -
    have lt: "i * ?c < ?s" using i c by (simp add: len ceil_div_iff)
    have nth: "?chunks ! i = make_chunk cfg crypto tf i"
      using i by (simp add: chunks)
    have d: "chunk_data (make_chunk cfg crypto tf i) =
        map ((!) (file_bytes file)) [i * ?c..<min ((i + 1) * ?c) ?s]"
      using make_chunk_data [of i cfg tf crypto] lt by (simp add: f)
    have "chunk_size (make_chunk cfg crypto tf i) = length (chunk_data (make_chunk cfg crypto tf i))"
      by (simp add: make_chunk_def Let_def)
    then have "chunk_size (make_chunk cfg crypto tf i) = min ((i + 1) * ?c) ?s - i * ?c"
      by (simp add: d)
    moreover have "chunk_index (make_chunk cfg crypto tf i) = i"
      by (simp add: make_chunk_def Let_def)
    ultimately show ?thesis using nth d by simp
  qed
  have lastc: "chunk_size (last ?chunks) = (if ?s mod ?c = 0 then ?c else ?s mod ?c)"
    if s: "0 < ?s"
  proof -
    have pos: "0 < ceil_div ?s ?c" using c s ceil_div_iff [OF c, of 0 ?s] by simp
    then have ne: "?chunks \<noteq> []" using len by auto
    have "last ?chunks = ?chunks ! (ceil_div ?s ?c - 1)"
      using ne len by (simp add: last_conv_nth)
    moreover have "ceil_div ?s ?c - 1 < length ?chunks" using pos len by simp
    ultimately have "chunk_size (last ?chunks) =
        min ((ceil_div ?s ?c - 1 + 1) * ?c) ?s - (ceil_div ?s ?c - 1) * ?c"
      using each by simp
    then show ?thesis using last_chunk_size [OF c s] pos by simp
  qed
  show ?thesis
    using new total len each lastc by (intro exI [of _ tf]) (simp only: total [symmetric] n, blast)
qed

subsection \<open>The transfer queue\<close>

lemma processTransferQueue_Nil: "transferQueue st = [] \<Longrightarrow> processTransferQueue st = st"
  by (subst processTransferQueue.simps) simp

lemma startTransfer_frame:
  "emitted (startTransfer f st) = emitted st \<and> console (startTransfer f st) = console st \<and>
   dataChannel (startTransfer f st) = dataChannel st \<and> config (startTransfer f st) = config st \<and>
   receivingFiles (startTransfer f st) = receivingFiles st \<and>
   transferQueue (startTransfer f st) = transferQueue st"
  by (simp add: startTransfer_def split: option.splits)

lemma startTransfer_entry:
  "map_option (\<lambda>tf. tf\<lparr>tf_status := PENDING\<rparr>) (map_get (sendingFiles (startTransfer f st)) k) =
   map_option (\<lambda>tf. tf\<lparr>tf_status := PENDING\<rparr>) (map_get (sendingFiles st) k)"
  by (cases "map_get (sendingFiles st) f") (auto simp: startTransfer_def map_get_map_set)

lemma processTransferQueue_frame:
  "emitted (processTransferQueue st) = emitted st \<and>
   console (processTransferQueue st) = console st \<and>
   dataChannel (processTransferQueue st) = dataChannel st \<and>
   config (processTransferQueue st) = config st \<and>
   receivingFiles (processTransferQueue st) = receivingFiles st \<and>
   map_option (\<lambda>tf. tf\<lparr>tf_status := PENDING\<rparr>) (map_get (sendingFiles (processTransferQueue st)) k) =
     map_option (\<lambda>tf. tf\<lparr>tf_status := PENDING\<rparr>) (map_get (sendingFiles st) k) \<and>
   (\<exists>started. transferQueue st = started @ transferQueue (processTransferQueue st))"
proof (induction st rule: processTransferQueue.induct)
  case (1 st)
  show ?case
  proof (cases "transferQueue st")
    case Nil
    then show ?thesis by (simp add: processTransferQueue_Nil)
  next
    case (Cons fileId rest)
    show ?thesis
    proof (cases "activeTransfers st < maxConcurrentTransfers (config st)")
      case False
      then have "processTransferQueue st = st"
        using Cons by (subst processTransferQueue.simps) simp
      then show ?thesis by simp
    next
      case True
      let ?st' = "if fileId \<noteq> [] then startTransfer fileId (st\<lparr>transferQueue := rest\<rparr>)
                  else st\<lparr>transferQueue := rest\<rparr>"
      have step: "processTransferQueue st = processTransferQueue ?st'"
        using Cons True by (subst processTransferQueue.simps) simp
      have ih: "emitted (processTransferQueue ?st') = emitted ?st' \<and>
         console (processTransferQueue ?st') = console ?st' \<and>
         dataChannel (processTransferQueue ?st') = dataChannel ?st' \<and>
         config (processTransferQueue ?st') = config ?st' \<and>
         receivingFiles (processTransferQueue ?st') = receivingFiles ?st' \<and>
         map_option (\<lambda>tf. tf\<lparr>tf_status := PENDING\<rparr>) (map_get (sendingFiles (processTransferQueue ?st')) k) =
           map_option (\<lambda>tf. tf\<lparr>tf_status := PENDING\<rparr>) (map_get (sendingFiles ?st') k) \<and>
         (\<exists>started. transferQueue ?st' = started @ transferQueue (processTransferQueue ?st'))"
        using "1.IH" [OF Cons True] by simp
      have q: "transferQueue ?st' = rest"
        by (simp add: startTransfer_frame)
      obtain started where "rest = started @ transferQueue (processTransferQueue ?st')"
        using ih q by auto
      then have "transferQueue st = (fileId # started) @ transferQueue (processTransferQueue st)"
        using Cons step by simp
      then have "\<exists>started. transferQueue st = started @ transferQueue (processTransferQueue st)"
        by blast
      moreover have "map_option (\<lambda>tf. tf\<lparr>tf_status := PENDING\<rparr>) (map_get (sendingFiles ?st') k) =
          map_option (\<lambda>tf. tf\<lparr>tf_status := PENDING\<rparr>) (map_get (sendingFiles st) k)"
        using startTransfer_entry [of fileId "st\<lparr>transferQueue := rest\<rparr>" k] by simp
      ultimately show ?thesis
        using ih step by (simp add: startTransfer_frame)
    qed
  qed
qed

lemma processTransferQueue_absent:
  "map_get (sendingFiles st) k = None \<Longrightarrow>
   map_get (sendingFiles (processTransferQueue st)) k = None"
  using processTransferQueue_frame [of st k] by simp

lemma sendFile_stores:
  assumes c: "0 < chunkSize (config st)" and ch: "dataChannel st = Some ch"
    and op: "ch_readyState ch = ch_open" and acc: "\<not> ch_rejects ch"
  shows "\<exists>st' tf. sendFile crypto fileId now file st = Some (Inr fileId, st') \<and>
     new_transfer (config st) fileId file now = Some tf \<and>
     map_option tf_chunks (map_get (sendingFiles st') fileId) =
       Some (tf_chunks (prepareFileChunks (config st) crypto tf)) \<and>
     map_option tf_totalChunks (map_get (sendingFiles st') fileId) = Some (tf_totalChunks tf)"
proof -
  obtain tf where tf: "new_transfer (config st) fileId file now = Some tf"
    using c by (simp add: new_transfer_def totalChunks_of_def)
  let ?p = "prepareFileChunks (config st) crypto tf"
  let ?st1 = "st\<lparr>sendingFiles := map_set (sendingFiles st) fileId ?p\<rparr>"
  let ?st2 = "?st1\<lparr>dataChannel := Some (ch\<lparr>ch_outbox := ch_outbox ch @
      [TextFrame (FileInfoMsg (tf_id ?p) (file_name (tf_file ?p)) (file_size (tf_file ?p))
         (file_type (tf_file ?p)) (tf_totalChunks ?p) (chunkSize (config st))
         (enableChecksum (config st)))]\<rparr>)\<rparr>"
  let ?st' = "processTransferQueue (?st2\<lparr>transferQueue := transferQueue ?st2 @ [fileId]\<rparr>)"
  have info: "sendFileInfo ?p ?st1 = (None, ?st2)"
    using ch op acc by (simp add: sendFileInfo_def sendControlMessage_def channel_send_def)
  have res: "sendFile crypto fileId now file st = Some (Inr fileId, ?st')"
    using tf info by (simp add: sendFile_def Let_def)
  have "map_option (\<lambda>tf. tf\<lparr>tf_status := PENDING\<rparr>) (map_get (sendingFiles ?st') fileId) =
      Some (?p\<lparr>tf_status := PENDING\<rparr>)"
    using processTransferQueue_frame [of "?st2\<lparr>transferQueue := transferQueue ?st2 @ [fileId]\<rparr>" fileId]
    by (simp add: map_get_map_set)
  then obtain stored where stored: "map_get (sendingFiles ?st') fileId = Some stored"
      and eq: "stored\<lparr>tf_status := PENDING\<rparr> = ?p\<lparr>tf_status := PENDING\<rparr>"
    by auto
  have "tf_chunks stored = tf_chunks (stored\<lparr>tf_status := PENDING\<rparr>)"
    "tf_totalChunks stored = tf_totalChunks (stored\<lparr>tf_status := PENDING\<rparr>)"
    by simp_all
  then have "tf_chunks stored = tf_chunks ?p" "tf_totalChunks stored = tf_totalChunks tf"
    by (simp_all only: eq) (simp_all add: prepareFileChunks_def)
  then show ?thesis using res tf stored by simp
qed

lemmas send_defs =
  after_sendFile_def sender0_def sendFile_def setDataChannel_def new_manager_def
  open_channel_def DEFAULT_CONFIG_def example_file_def new_transfer_def totalChunks_of_def
  ceil_div_def file_size_def prepareFileChunks_def prepare_loop_eq make_chunk_def
  blob_slice_def upt_conv_Cons sendFileInfo_def sendControlMessage_def channel_send_def
  processTransferQueue.simps startTransfer_def Let_def

text \<open>
  Claim C1. With a positive chunk size \<open>C\<close>, \<^verbatim>\<open>sendFile\<close> on a file of \<open>S\<close> bytes creates a
  transfer whose \<^verbatim>\<open>totalChunks\<close> is \<open>ceil (S / C)\<close>; \<^verbatim>\<open>prepareFileChunks\<close> then produces
  exactly that many chunks, chunk \<open>i\<close> has index \<open>i\<close> and holds the bytes at positions
  \<open>i * C\<close> up to, not including, \<open>min ((i + 1) * C) S\<close>, and for a non-empty file the last
  chunk has \<open>S mod C\<close> bytes, or \<open>C\<close> when \<open>C\<close> divides \<open>S\<close>. On an open channel that
  accepts the \<^verbatim>\<open>file-info\<close> message, \<^verbatim>\<open>sendFile\<close> returns the file id and the sending table
  holds these chunks and this chunk count under it.
\<close>

theorem sendFile_chunks:
  assumes c: "0 < chunkSize (config st)"
  shows "\<exists>tf. new_transfer (config st) fileId file now = Some tf \<and>
    tf_totalChunks tf = nat \<lceil>real (file_size file) / real (chunkSize (config st))\<rceil> \<and>
    length (tf_chunks (prepareFileChunks (config st) crypto tf)) =
      nat \<lceil>real (file_size file) / real (chunkSize (config st))\<rceil> \<and>
    (\<forall>i < length (tf_chunks (prepareFileChunks (config st) crypto tf)).
       chunk_index (tf_chunks (prepareFileChunks (config st) crypto tf) ! i) = i \<and>
       chunk_data (tf_chunks (prepareFileChunks (config st) crypto tf) ! i) =
         map ((!) (file_bytes file))
           [i * chunkSize (config st)..<
            min ((i + 1) * chunkSize (config st)) (file_size file)] \<and>
       chunk_size (tf_chunks (prepareFileChunks (config st) crypto tf) ! i) =
         min ((i + 1) * chunkSize (config st)) (file_size file) - i * chunkSize (config st)) \<and>
    (0 < file_size file \<longrightarrow>
       chunk_size (last (tf_chunks (prepareFileChunks (config st) crypto tf))) =
         (if file_size file mod chunkSize (config st) = 0 then chunkSize (config st)
          else file_size file mod chunkSize (config st))) \<and>
    (\<forall>ch. dataChannel st = Some ch \<and> ch_readyState ch = ch_open \<and> \<not> ch_rejects ch \<longrightarrow>
       (\<exists>st'. sendFile crypto fileId now file st = Some (Inr fileId, st') \<and>
          map_option tf_chunks (map_get (sendingFiles st') fileId) =
            Some (tf_chunks (prepareFileChunks (config st) crypto tf)) \<and>
          map_option tf_totalChunks (map_get (sendingFiles st') fileId) =
            Some (tf_totalChunks tf)))"
proof -
  obtain tf where tf: "new_transfer (config st) fileId file now = Some tf"
    and rest: "tf_totalChunks tf = nat \<lceil>real (file_size file) / real (chunkSize (config st))\<rceil> \<and>
    length (tf_chunks (prepareFileChunks (config st) crypto tf)) =
      nat \<lceil>real (file_size file) / real (chunkSize (config st))\<rceil> \<and>
    (\<forall>i < length (tf_chunks (prepareFileChunks (config st) crypto tf)).
       chunk_index (tf_chunks (prepareFileChunks (config st) crypto tf) ! i) = i \<and>
       chunk_data (tf_chunks (prepareFileChunks (config st) crypto tf) ! i) =
         map ((!) (file_bytes file))
           [i * chunkSize (config st)..<
            min ((i + 1) * chunkSize (config st)) (file_size file)] \<and>
       chunk_size (tf_chunks (prepareFileChunks (config st) crypto tf) ! i) =
         min ((i + 1) * chunkSize (config st)) (file_size file) - i * chunkSize (config st)) \<and>
    (0 < file_size file \<longrightarrow>
       chunk_size (last (tf_chunks (prepareFileChunks (config st) crypto tf))) =
         (if file_size file mod chunkSize (config st) = 0 then chunkSize (config st)
          else file_size file mod chunkSize (config st)))"
    using prepared_chunks [OF c, of fileId "file" now crypto]
    by - (erule exE, erule conjE, rule that)
  have "\<exists>st'. sendFile crypto fileId now file st = Some (Inr fileId, st') \<and>
          map_option tf_chunks (map_get (sendingFiles st') fileId) =
            Some (tf_chunks (prepareFileChunks (config st) crypto tf)) \<and>
          map_option tf_totalChunks (map_get (sendingFiles st') fileId) =
            Some (tf_totalChunks tf)"
    if "dataChannel st = Some ch" "ch_readyState ch = ch_open" "\<not> ch_rejects ch" for ch
    using sendFile_stores [OF c that, of crypto fileId now "file"] tf by auto
  then have send: "\<forall>ch. dataChannel st = Some ch \<and> ch_readyState ch = ch_open \<and> \<not> ch_rejects ch \<longrightarrow>
       (\<exists>st'. sendFile crypto fileId now file st = Some (Inr fileId, st') \<and>
          map_option tf_chunks (map_get (sendingFiles st') fileId) =
            Some (tf_chunks (prepareFileChunks (config st) crypto tf)) \<and>
          map_option tf_totalChunks (map_get (sendingFiles st') fileId) =
            Some (tf_totalChunks tf))"
    by blast
  show ?thesis
    by (rule exI [of _ tf]) (intro conjI tf send rest [THEN conjunct1]
      rest [THEN conjunct2, THEN conjunct1] rest [THEN conjunct2, THEN conjunct2, THEN conjunct1]
      rest [THEN conjunct2, THEN conjunct2, THEN conjunct2])
qed

theorem sendFile_chunks_witness:
  "0 < chunkSize (config sender0) \<and>
   (\<exists>tf. new_transfer (config sender0) ''A'' example_file 0 = Some tf \<and>
      tf_totalChunks tf = 3 \<and>
      map chunk_data (tf_chunks (prepareFileChunks (config sender0) None tf)) =
        [[1, 2], [3, 4], [5]] \<and>
      chunk_size (last (tf_chunks (prepareFileChunks (config sender0) None tf))) = 1) \<and>
   (\<exists>st'. sendFile None ''A'' 0 example_file sender0 = Some (Inr ''A'', st') \<and>
      map_option (map chunk_data \<circ> tf_chunks) (map_get (sendingFiles st') ''A'') =
        Some [[1, 2], [3, 4], [5]])"
  using sendFile_chunks [of sender0 "''A''" example_file 0 None]
  by (simp add: send_defs)

subsection \<open>Reassembly\<close>

lemma fold_sizes:
  "fold (\<lambda>chunk sum. sum + chunk_size chunk) cs a = a + sum_list (map chunk_size cs)"
  by (induction cs arbitrary: a) simp_all

lemma copy_chunks_concat:
  assumes "\<forall>c \<in> set cs. chunk_size c = length (chunk_data c)"
    and "off + sum_list (map chunk_size cs) \<le> length buf"
  shows "copy_chunks cs off buf =
     Inr (take off buf @ concat (map chunk_data cs) @
          drop (off + sum_list (map chunk_size cs)) buf)"
  using assms
proof (induction cs arbitrary: off buf)
  case Nil
  then show ?case by simp
next
  case (Cons c cs)
  let ?d = "chunk_data c"
  let ?buf' = "take off buf @ ?d @ drop (off + length ?d) buf"
  have sz: "chunk_size c = length ?d" using Cons.prems(1) by simp
  have fits: "off + length ?d \<le> length buf" using Cons.prems(2) sz by simp
  have len: "length ?buf' = length buf" using fits by simp
  have ih: "copy_chunks cs (off + length ?d) ?buf' =
      Inr (take (off + length ?d) ?buf' @ concat (map chunk_data cs) @
           drop (off + length ?d + sum_list (map chunk_size cs)) ?buf')"
    using Cons.prems sz len by (intro Cons.IH) simp_all
  have t: "take (off + length ?d) ?buf' = take off buf @ ?d" using fits by simp
  have d: "drop (off + length ?d + sum_list (map chunk_size cs)) ?buf' =
      drop (off + length ?d + sum_list (map chunk_size cs)) buf"
    using fits by (simp add: add.commute add.left_commute)
  show ?case
    using fits ih by (simp add: view_set_def sz t d add_ac)
qed

lemma sort_by_index:
  assumes d: "distinct (map chunk_index xs)"
    and s: "chunk_index ` set xs = {0..<n}"
    and g: "\<forall>x \<in> set xs. x = g (chunk_index x)"
  shows "sort_key chunk_index xs = map g [0..<n]"
proof -
  let ?ys = "sort_key chunk_index xs"
  have "distinct xs" and inj: "inj_on chunk_index (set xs)"
    using d by (simp_all add: distinct_map)
  then have "distinct (map chunk_index ?ys)"
    by (simp add: distinct_map)
  moreover have "sorted (map chunk_index ?ys)" by (rule sorted_sort_key)
  moreover have "set (map chunk_index ?ys) = set [0..<n]" using s by simp
  ultimately have idx: "map chunk_index ?ys = [0..<n]"
    by (intro sorted_distinct_set_unique) simp_all
  have "map (g \<circ> chunk_index) ?ys = ?ys"
    using g by (intro map_idI) simp
  then have "?ys = map g (map chunk_index ?ys)" by simp
  then show ?thesis using idx by simp
qed

text \<open>
  What \<^verbatim>\<open>reconstructFile\<close> does with a transfer whose \<^verbatim>\<open>receivedChunks\<close> hold exactly the
  chunks a sender prepared for a file, stored in any order: it returns the file's bytes.
\<close>

lemma reconstructFile_any_order:
  assumes c: "0 < chunkSize cfg"
    and new: "new_transfer cfg fileId file now = Some tf"
    and same: "set (map_values (tf_receivedChunks rf)) =
        set (tf_chunks (prepareFileChunks cfg crypto tf))"
    and len: "length (tf_receivedChunks rf) = length (tf_chunks (prepareFileChunks cfg crypto tf))"
  shows "reconstructFile rf =
     Inr \<lparr>file_name = file_name (tf_file rf), file_type = file_type (tf_file rf),
          file_bytes = file_bytes file\<rparr>"
proof -
  let ?n = "tf_totalChunks tf"
  let ?g = "make_chunk cfg crypto tf"
  let ?chunks = "map ?g [0..<?n]"
  let ?xs = "map_values (tf_receivedChunks rf)"
  have f: "tf_file tf = file" and n: "?n = ceil_div (file_size file) (chunkSize cfg)"
    using new c by (auto simp: new_transfer_def totalChunks_of_def)
  have chunks: "tf_chunks (prepareFileChunks cfg crypto tf) = ?chunks"
    by (rule tf_chunks_prepare)
  have idx: "map chunk_index ?chunks = [0..<?n]"
    by (simp add: make_chunk_def Let_def comp_def map_idI)
  then have dc: "distinct (map chunk_index ?chunks)" by (metis distinct_upt)
  then have "distinct ?chunks" by (simp only: distinct_map)
  then have "card (set ?chunks) = length ?chunks" by (rule distinct_card)
  then have "card (set ?xs) = length ?xs"
    using same len chunks by (simp add: map_values_def)
  then have dx: "distinct ?xs" by (rule card_distinct)
  have "inj_on chunk_index (set ?chunks)" using dc by (simp only: distinct_map)
  then have d: "distinct (map chunk_index ?xs)"
    using dx same chunks by (simp add: distinct_map)
  have "chunk_index ` set ?xs = set (map chunk_index ?chunks)"
    using same chunks by (simp add: image_image)
  then have s: "chunk_index ` set ?xs = {0..<?n}" by (simp only: idx set_upt)
  have g: "\<forall>x \<in> set ?xs. x = ?g (chunk_index x)"
    using same chunks by (auto simp: make_chunk_def Let_def)
  have sorted: "sort_key chunk_index ?xs = ?chunks"
    using d s g by (rule sort_by_index)
  have sizes: "\<forall>c \<in> set ?chunks. chunk_size c = length (chunk_data c)"
    by (auto simp: make_chunk_def Let_def)
  let ?t = "sum_list (map chunk_size ?chunks)"
  have "copy_chunks ?chunks 0 (replicate ?t 0) =
      Inr (take 0 (replicate ?t 0) @ concat (map chunk_data ?chunks) @
           drop (0 + ?t) (replicate ?t 0))"
    using sizes by (intro copy_chunks_concat) simp_all
  then have "copy_chunks ?chunks 0 (replicate ?t 0) = Inr (file_bytes file)"
    using concat_prepared [OF c, of tf crypto] f n by simp
  then show ?thesis
    by (simp add: reconstructFile_def Let_def sorted fold_sizes)
qed

lemmas receive_defs =
  receiver_after_header_def receiver0_def setDataChannel_def new_manager_def open_channel_def
  handleDataChannelMessage_def handleFileInfo_def sendControlMessage_def channel_send_def
  console_log_def handleFileChunk_def handleTransferComplete_def completeTransfer_def
  reconstructFile_def map_values_def emit_def processTransferQueue_Nil Let_def

text \<open>
  Claim C2, at a failing input. A receiver is told of the one-chunk file \<^verbatim>\<open>f\<close>, then gets
  the chunk's header, the chunk's three bytes 1, 2, 3 and \<^verbatim>\<open>transfer-complete\<close>. The bytes
  are not stored (\<^verbatim>\<open>receivedChunks\<close> stays empty), and the file reported by \<^verbatim>\<open>completed\<close>
  is empty instead of holding the three bytes.
\<close>

theorem received_chunk_not_reassembled:
  "map (\<lambda>(fileId, transferFile). tf_receivedChunks transferFile)
     (receivingFiles (handleDataChannelMessage 0 (ArrayBufferData [1, 2, 3]) receiver_after_header))
     = [[]] \<and>
   emitted
     (handleDataChannelMessage 0 (StringData (Some (TransferCompleteMsg ''f'')))
        (handleDataChannelMessage 0 (ArrayBufferData [1, 2, 3]) receiver_after_header))
     = [CompletedEv ''f'' \<lparr>file_name = ''a.bin'', file_type = ''text/plain'', file_bytes = []\<rparr>]"
  by (simp add: receive_defs)

subsection \<open>Checksums on receipt\<close>

text \<open>
  Claim C3, at a failing input. The header announces the checksum of the bytes 1, 2, 3
  and the payload arrives as 1, 2, 4, whose checksum differs. The receiver ends in the
  very state an intact payload leaves it in: no event, nothing sent beyond the first
  chunk request, and a console line with the byte length only. Nothing marks the mismatch.
\<close>

theorem corrupted_chunk_not_detected:
  "calculateChecksum None [1, 2, 4] \<noteq> calculateChecksum None [1, 2, 3] \<and>
   handleDataChannelMessage 0 (ArrayBufferData [1, 2, 4]) receiver_after_header =
     handleDataChannelMessage 0 (ArrayBufferData [1, 2, 3]) receiver_after_header \<and>
   emitted (handleDataChannelMessage 0 (ArrayBufferData [1, 2, 4]) receiver_after_header) = [] \<and>
   console (handleDataChannelMessage 0 (ArrayBufferData [1, 2, 4]) receiver_after_header) =
     [''Unknown control message type: chunk-header'', ''Received file chunk: 3''] \<and>
   map_option ch_outbox
     (dataChannel (handleDataChannelMessage 0 (ArrayBufferData [1, 2, 4]) receiver_after_header)) =
     Some [TextFrame (ChunkRequestMsg ''f'' 0)]"
  by (simp add: receive_defs calculateChecksum_def fallback_checksum_def to_radix.simps
      digit_char_def)

subsection \<open>Closing the data channel\<close>

lemma fail_each_eq:
  "fail_each entries st =
     (map (\<lambda>(fileId, transferFile). (fileId, transferFile\<lparr>tf_status := FAILED\<rparr>)) entries,
      st\<lparr>emitted := emitted st @
           map (\<lambda>(fileId, transferFile). FailedEv fileId ''Data channel closed'') entries\<rparr>)"
  by (induction entries arbitrary: st) (auto simp: emit_def Let_def)

lemma fail_all_eq:
  "fail_all st =
     st\<lparr>sendingFiles :=
          map (\<lambda>(fileId, transferFile). (fileId, transferFile\<lparr>tf_status := FAILED\<rparr>))
            (sendingFiles st),
        receivingFiles :=
          map (\<lambda>(fileId, transferFile). (fileId, transferFile\<lparr>tf_status := FAILED\<rparr>))
            (receivingFiles st),
        emitted := emitted st @
          map (\<lambda>(fileId, transferFile). FailedEv fileId ''Data channel closed'')
            (sendingFiles st @ receivingFiles st)\<rparr>"
  by (simp add: fail_all_def fail_each_eq)

text \<open>
  Claim C8. \<^verbatim>\<open>handleDataChannelClose\<close> first marks every entry of the sending and of the
  receiving table \<^verbatim>\<open>FAILED\<close> and emits one \<^verbatim>\<open>failed\<close> event for each entry, in table
  order, and nothing else; it then leaves both tables and the queue empty and the
  counter at 0. Attaching a replacement channel afterwards keeps the tables empty and
  sends nothing, and a chunk request or acknowledgement for any earlier transfer that
  arrives on the new channel sends nothing either.
\<close>

theorem handleDataChannelClose_fails_all:
  "handleDataChannelClose st = clear_all (fail_all st) \<and>
   sendingFiles (fail_all st) =
     map (\<lambda>(fileId, transferFile). (fileId, transferFile\<lparr>tf_status := FAILED\<rparr>))
       (sendingFiles st) \<and>
   receivingFiles (fail_all st) =
     map (\<lambda>(fileId, transferFile). (fileId, transferFile\<lparr>tf_status := FAILED\<rparr>))
       (receivingFiles st) \<and>
   emitted (handleDataChannelClose st) =
     emitted st @ map (\<lambda>(fileId, transferFile). FailedEv fileId ''Data channel closed'')
       (sendingFiles st @ receivingFiles st) \<and>
   sendingFiles (handleDataChannelClose st) = [] \<and>
   receivingFiles (handleDataChannelClose st) = [] \<and>
   transferQueue (handleDataChannelClose st) = [] \<and>
   activeTransfers (handleDataChannelClose st) = 0 \<and>
   sendingFiles (setDataChannel ch (handleDataChannelClose st)) = [] \<and>
   receivingFiles (setDataChannel ch (handleDataChannelClose st)) = [] \<and>
   transferQueue (setDataChannel ch (handleDataChannelClose st)) = [] \<and>
   dataChannel (setDataChannel ch (handleDataChannelClose st)) = Some ch \<and>
   dataChannel (handleDataChannelMessage now (StringData (Some (ChunkRequestMsg fileId i)))
       (setDataChannel ch (handleDataChannelClose st))) = Some ch \<and>
   dataChannel (handleDataChannelMessage now (StringData (Some (ChunkAckMsg fileId i)))
       (setDataChannel ch (handleDataChannelClose st))) = Some ch"
  by (simp add: handleDataChannelClose_def clear_all_def fail_all_eq setDataChannel_def
      handleDataChannelMessage_def handleChunkRequest_def handleChunkAck_def console_log_def)

theorem handleDataChannelClose_fails_all_witness:
  "map (\<lambda>(fileId, transferFile). tf_status transferFile)
     (sendingFiles (fail_all
        ((new_manager DEFAULT_CONFIG)
           \<lparr>sendingFiles := [(''a'', example_transfer ''a'' TRANSFERRING)],
            receivingFiles := [(''b'', example_transfer ''b'' PENDING)],
            transferQueue := [''c''], activeTransfers := 1\<rparr>))) = [FAILED] \<and>
   emitted (handleDataChannelClose
        ((new_manager DEFAULT_CONFIG)
           \<lparr>sendingFiles := [(''a'', example_transfer ''a'' TRANSFERRING)],
            receivingFiles := [(''b'', example_transfer ''b'' PENDING)],
            transferQueue := [''c''], activeTransfers := 1\<rparr>)) =
     [FailedEv ''a'' ''Data channel closed'', FailedEv ''b'' ''Data channel closed''] \<and>
   transferQueue (handleDataChannelClose
        ((new_manager DEFAULT_CONFIG)
           \<lparr>sendingFiles := [(''a'', example_transfer ''a'' TRANSFERRING)],
            receivingFiles := [(''b'', example_transfer ''b'' PENDING)],
            transferQueue := [''c''], activeTransfers := 1\<rparr>)) = []"
  using handleDataChannelClose_fails_all
    [of "(new_manager DEFAULT_CONFIG)
           \<lparr>sendingFiles := [(''a'', example_transfer ''a'' TRANSFERRING)],
            receivingFiles := [(''b'', example_transfer ''b'' PENDING)],
            transferQueue := [''c''], activeTransfers := 1\<rparr>" open_channel 0 "''a''" 0]
  by (simp add: new_manager_def handleDataChannelClose_def clear_all_def fail_all_eq)

subsection \<open>Cancelling\<close>

text \<open>
  What \<^verbatim>\<open>cancelTransfer\<close> does to the tables, the queue and the events: one \<^verbatim>\<open>cancelled\<close>
  event for each table that held the id and no other event, the id gone from both
  tables, and the queue without its first occurrence of the id, up to the ids that
  \<^verbatim>\<open>processTransferQueue\<close> then takes from its front.
\<close>

lemma cancelTransfer_effect:
  assumes ds: "distinct (map fst (sendingFiles st))"
    and dr: "distinct (map fst (receivingFiles st))"
  shows "emitted (cancelTransfer fileId st) =
       emitted st @
         (if map_has (sendingFiles st) fileId then [CancelledEv fileId] else []) @
         (if map_has (receivingFiles st) fileId then [CancelledEv fileId] else []) \<and>
     map_get (sendingFiles (cancelTransfer fileId st)) fileId = None \<and>
     map_get (receivingFiles (cancelTransfer fileId st)) fileId = None \<and>
     (\<exists>started. remove1 fileId (transferQueue st) =
        started @ transferQueue (cancelTransfer fileId st))"
proof -
  define st1 where "st1 = (if map_get (sendingFiles st) fileId \<noteq> None
                 then emit (CancelledEv fileId)
                        (st\<lparr>sendingFiles := map_delete (sendingFiles st) fileId\<rparr>)
                 else st)"
  define st2 where "st2 = (if map_get (receivingFiles st) fileId \<noteq> None
                 then emit (CancelledEv fileId)
                        (st1\<lparr>receivingFiles := map_delete (receivingFiles st1) fileId\<rparr>)
                 else st1)"
  define st3 where "st3 = st2\<lparr>transferQueue := remove1 fileId (transferQueue st2)\<rparr>"
  define st4 where "st4 = st3\<lparr>activeTransfers := max 0 (activeTransfers st3 - 1)\<rparr>"
  have c: "cancelTransfer fileId st = processTransferQueue st4"
    by (simp add: cancelTransfer_def Let_def st1_def st2_def st3_def st4_def)
  have s1: "map_get (sendingFiles st1) fileId = None" "receivingFiles st1 = receivingFiles st"
      "transferQueue st1 = transferQueue st"
      "emitted st1 = emitted st @
         (if map_has (sendingFiles st) fileId then [CancelledEv fileId] else [])"
    using map_get_map_delete [OF ds, of fileId fileId]
    by (auto simp: st1_def emit_def map_has_def)
  have s2: "map_get (sendingFiles st2) fileId = None" "map_get (receivingFiles st2) fileId = None"
      "transferQueue st2 = transferQueue st"
      "emitted st2 = emitted st1 @
         (if map_has (receivingFiles st) fileId then [CancelledEv fileId] else [])"
    using s1 map_get_map_delete [OF dr, of fileId fileId]
    by (auto simp: st2_def emit_def map_has_def)
  have s4: "map_get (sendingFiles st4) fileId = None" "receivingFiles st4 = receivingFiles st2"
      "transferQueue st4 = remove1 fileId (transferQueue st)" "emitted st4 = emitted st2"
    using s2 by (simp_all add: st3_def st4_def)
  show ?thesis
    using processTransferQueue_frame [of st4 fileId] s1 s2 s4 by (simp add: c)
qed

text \<open>
  Claim C9, at a failing input. A sender that admits one transfer at a time has sent
  the files \<^verbatim>\<open>A\<close> and \<^verbatim>\<open>B\<close>: \<^verbatim>\<open>A\<close> is transferring and \<^verbatim>\<open>B\<close> waits in the queue. Cancelling
  the id \<^verbatim>\<open>zzz\<close>, which no table and no queue knows, emits nothing, yet it frees a slot
  and starts \<^verbatim>\<open>B\<close>: two transfers are then transferring under a limit of one.
\<close>

theorem cancelTransfer_unknown_id_changes_state:
  "map_option fst (sendFile None ''A'' 0 example_file sender0) = Some (Inr ''A'') \<and>
   map_option fst (sendFile None ''B'' 0 example_file (after_sendFile ''A'' sender0)) =
     Some (Inr ''B'') \<and>
   maxConcurrentTransfers (config (after_sendFile ''B'' (after_sendFile ''A'' sender0))) = 1 \<and>
   map_get (sendingFiles (after_sendFile ''B'' (after_sendFile ''A'' sender0))) ''zzz'' = None \<and>
   map_get (receivingFiles (after_sendFile ''B'' (after_sendFile ''A'' sender0))) ''zzz'' = None \<and>
   map (\<lambda>(fileId, transferFile). (fileId, tf_status transferFile))
     (sendingFiles (after_sendFile ''B'' (after_sendFile ''A'' sender0))) =
     [(''A'', TRANSFERRING), (''B'', PREPARING)] \<and>
   transferQueue (after_sendFile ''B'' (after_sendFile ''A'' sender0)) = [''B''] \<and>
   activeTransfers (after_sendFile ''B'' (after_sendFile ''A'' sender0)) = 1 \<and>
   map (\<lambda>(fileId, transferFile). (fileId, tf_status transferFile))
     (sendingFiles (cancelTransfer ''zzz'' (after_sendFile ''B'' (after_sendFile ''A'' sender0)))) =
     [(''A'', TRANSFERRING), (''B'', TRANSFERRING)] \<and>
   transferQueue (cancelTransfer ''zzz'' (after_sendFile ''B'' (after_sendFile ''A'' sender0))) = [] \<and>
   activeTransfers (cancelTransfer ''zzz'' (after_sendFile ''B'' (after_sendFile ''A'' sender0))) = 1 \<and>
   emitted (cancelTransfer ''zzz'' (after_sendFile ''B'' (after_sendFile ''A'' sender0))) = []"
  by (simp add: send_defs cancelTransfer_def)

subsection \<open>Backpressure\<close>

lemma rtc_chunk_take: "rtc_chunk bytes i = take RTC_CHUNK_SIZE (drop (i * RTC_CHUNK_SIZE) bytes)"
  by (simp add: rtc_chunk_def blob_slice_def min_def)

lemma concat_rtc_chunks:
  "concat (map (rtc_chunk bytes) [0..<ceil_div (length bytes) RTC_CHUNK_SIZE]) = bytes"
proof -
  have "length bytes \<le> ceil_div (length bytes) RTC_CHUNK_SIZE * RTC_CHUNK_SIZE"
    by (rule ceil_div_covers) (simp add: RTC_CHUNK_SIZE_def)
  moreover have "rtc_chunk bytes = (\<lambda>i. take RTC_CHUNK_SIZE (drop (i * RTC_CHUNK_SIZE) bytes))"
    by (rule ext) (rule rtc_chunk_take)
  then have "concat (map (rtc_chunk bytes) [0..<n]) = take (n * RTC_CHUNK_SIZE) bytes" for n
    by (simp only: concat_takes)
  ultimately show ?thesis by simp
qed

lemma wait_for_buffer_Some:
  "wait_for_buffer obs = Some (ob, rest) \<Longrightarrow>
   drained ob \<and> (\<exists>skipped. obs = skipped @ ob # rest \<and> list_all (\<lambda>x. \<not> drained x) skipped)"
proof (induction obs)
  case Nil
  then show ?case by simp
next
  case (Cons a obs)
  obtain b ok where a: "a = (b, ok)" by (cases a)
  show ?case
  proof (cases "b > BUFFER_LIMIT")
    case True
    then have "wait_for_buffer obs = Some (ob, rest)" using Cons.prems a by simp
    then obtain skipped where "drained ob" "obs = skipped @ ob # rest"
        "list_all (\<lambda>x. \<not> drained x) skipped"
      using Cons.IH by blast
    then have "drained ob \<and> a # obs = (a # skipped) @ ob # rest \<and>
        list_all (\<lambda>x. \<not> drained x) (a # skipped)"
      using True a by (simp add: drained_def)
    then show ?thesis by blast
  next
    case False
    then have "ob = a" "rest = obs" using Cons.prems a by simp_all
    then have "drained ob \<and> a # obs = [] @ ob # rest \<and> list_all (\<lambda>x. \<not> drained x) []"
      using False a by (simp add: drained_def)
    then show ?thesis by blast
  qed
qed

lemma wait_for_buffer_None:
  "wait_for_buffer obs = None \<longleftrightarrow> list_all (\<lambda>x. \<not> drained x) obs"
  by (induction obs) (auto simp: drained_def split: if_splits)

lemma send_loop_inv:
  assumes "send_loop bytes n i obs handed = (handed', out)"
    and "list_all (\<lambda>(b, d). b \<le> BUFFER_LIMIT) handed"
    and "map snd handed = map (rtc_chunk bytes) [0..<i]"
    and "i \<le> n"
  shows "list_all (\<lambda>(b, d). b \<le> BUFFER_LIMIT) handed' \<and>
     length handed' \<le> n \<and>
     map snd handed' = map (rtc_chunk bytes) [0..<length handed'] \<and>
     (out = SendCompleted \<longrightarrow> length handed' = n) \<and>
     (\<forall>k. out = SendWaiting k \<longrightarrow> k = length handed' \<and> k < n) \<and>
     (\<forall>k. out = SendFailed k \<longrightarrow> k = length handed' \<and> k < n)"
  using assms
proof (induction bytes n i obs handed rule: send_loop.induct)
  case (1 bytes n i obs handed)
  have len: "length handed = i"
    using "1.prems"(3) by (metis diff_zero length_map length_upt)
  show ?case
  proof (cases "i < n")
    case False
    then have "handed' = handed" "out = SendCompleted"
      using "1.prems"(1) by (simp_all add: send_loop.simps)
    then show ?thesis using "1.prems" False len by simp
  next
    case True
    show ?thesis
    proof (cases "wait_for_buffer obs")
      case None
      then have "handed' = handed" "out = SendWaiting i"
        using "1.prems"(1) True by (simp_all add: send_loop.simps)
      then show ?thesis using "1.prems" True len by simp
    next
      case (Some r)
      obtain b ok rest where r: "r = ((b, ok), rest)" by (metis surj_pair)
      show ?thesis
      proof (cases ok)
        case False
        then have "handed' = handed" "out = SendFailed i"
          using "1.prems"(1) True Some r by (simp_all add: send_loop.simps)
        then show ?thesis using "1.prems" True len by simp
      next
        case ok: True
        have d: "b \<le> BUFFER_LIMIT"
          using wait_for_buffer_Some [of obs "(b, ok)" rest] Some r by (simp add: drained_def)
        have step: "send_loop bytes n (Suc i) rest (handed @ [(b, rtc_chunk bytes i)]) = (handed', out)"
          using "1.prems"(1) True Some r ok by (simp add: send_loop.simps)
        show ?thesis
        proof (rule "1.IH" [OF True Some r [symmetric] refl ok step])
          show "list_all (\<lambda>(b, d). b \<le> BUFFER_LIMIT) (handed @ [(b, rtc_chunk bytes i)])"
            using "1.prems"(2) d by simp
          show "map snd (handed @ [(b, rtc_chunk bytes i)]) = map (rtc_chunk bytes) [0..<Suc i]"
            using "1.prems"(3) by simp
          show "Suc i \<le> n" using True by simp
        qed
      qed
    qed
  qed
qed

lemma send_loop_live:
  assumes "list_all snd obs" and "n - i \<le> length (filter drained obs)"
  shows "snd (send_loop bytes n i obs handed) = SendCompleted"
  using assms
proof (induction bytes n i obs handed rule: send_loop.induct)
  case (1 bytes n i obs handed)
  show ?case
  proof (cases "i < n")
    case False
    then show ?thesis by (simp add: send_loop.simps)
  next
    case True
    then have "filter drained obs \<noteq> []" using "1.prems"(2) by auto
    then have "\<not> list_all (\<lambda>x. \<not> drained x) obs"
      by (simp add: filter_empty_conv list_all_iff)
    then obtain r where Some: "wait_for_buffer obs = Some r"
      using wait_for_buffer_None [of obs] by auto
    obtain b ok rest where r: "r = ((b, ok), rest)" by (metis surj_pair)
    obtain skipped where d: "drained (b, ok)" and obs: "obs = skipped @ (b, ok) # rest"
        and sk: "list_all (\<lambda>x. \<not> drained x) skipped"
      using wait_for_buffer_Some [of obs "(b, ok)" rest] Some r by auto
    have ok: ok using "1.prems"(1) obs by simp
    have "filter drained skipped = []" using sk by (simp add: filter_empty_conv list_all_iff)
    then have "length (filter drained obs) = Suc (length (filter drained rest))"
      using obs d by simp
    then have enough: "n - Suc i \<le> length (filter drained rest)"
      using "1.prems"(2) by simp
    have all: "list_all snd rest" using "1.prems"(1) obs by simp
    have "snd (send_loop bytes n (Suc i) rest (handed @ [(b, rtc_chunk bytes i)])) = SendCompleted"
      by (rule "1.IH" [OF True Some r [symmetric] refl ok all enough])
    then show ?thesis using True Some r ok by (simp add: send_loop.simps)
  qed
qed

lemma send_loop_stalls:
  assumes "list_all (\<lambda>x. \<not> drained x) obs" "i < n"
  shows "send_loop bytes n i obs handed = (handed, SendWaiting i)"
  using assms wait_for_buffer_None [of obs] by (simp add: send_loop.simps)

text \<open>
  Claim C7. Whatever the channel's buffered amounts are over time, every chunk
  \<^verbatim>\<open>sendFileInChunks\<close> hands to the channel is handed over at a buffered amount of at most
  16 MiB (16777216 bytes); the chunks handed over are the file's chunks in index order with
  none skipped; a sender that has not finished waits at the next chunk; a sender that
  finishes has handed over every chunk, and their concatenation is the file. While the
  buffered amount stays above the limit nothing is sent, and once it is observed within the
  limit often enough (on a channel that accepts the sends) the sender completes.
\<close>

theorem sendFileInChunks_backpressure:
  assumes "sendFileInChunks obs file = (handed, outcome)"
  shows "list_all (\<lambda>(bufferedAmount, chunk). bufferedAmount \<le> BUFFER_LIMIT) handed \<and>
    map snd handed = map (rtc_chunk (file_bytes file)) [0..<length handed] \<and>
    length handed \<le> ceil_div (file_size file) RTC_CHUNK_SIZE \<and>
    (outcome = SendCompleted \<longrightarrow>
       length handed = ceil_div (file_size file) RTC_CHUNK_SIZE \<and>
       concat (map snd handed) = file_bytes file) \<and>
    (\<forall>k. outcome = SendWaiting k \<longrightarrow>
       k = length handed \<and> k < ceil_div (file_size file) RTC_CHUNK_SIZE) \<and>
    (list_all (\<lambda>ob. \<not> drained ob) obs \<and> file_bytes file \<noteq> [] \<longrightarrow>
       handed = [] \<and> outcome = SendWaiting 0) \<and>
    (list_all snd obs \<and>
     ceil_div (file_size file) RTC_CHUNK_SIZE \<le> length (filter drained obs) \<longrightarrow>
       outcome = SendCompleted)"
proof -
  let ?n = "ceil_div (file_size file) RTC_CHUNK_SIZE"
  have run: "send_loop (file_bytes file) ?n 0 obs [] = (handed, outcome)"
    using assms by (simp add: sendFileInChunks_def)
  have inv: "list_all (\<lambda>(b, d). b \<le> BUFFER_LIMIT) handed \<and>
     length handed \<le> ?n \<and>
     map snd handed = map (rtc_chunk (file_bytes file)) [0..<length handed] \<and>
     (outcome = SendCompleted \<longrightarrow> length handed = ?n) \<and>
     (\<forall>k. outcome = SendWaiting k \<longrightarrow> k = length handed \<and> k < ?n) \<and>
     (\<forall>k. outcome = SendFailed k \<longrightarrow> k = length handed \<and> k < ?n)"
    by (rule send_loop_inv [OF run]) simp_all
  have whole: "concat (map snd handed) = file_bytes file" if "outcome = SendCompleted"
    using inv that concat_rtc_chunks [of "file_bytes file"] by (simp add: file_size_def)
  have stall: "handed = [] \<and> outcome = SendWaiting 0"
    if "list_all (\<lambda>ob. \<not> drained ob) obs" "file_bytes file \<noteq> []"
  proof -
    have "0 < ?n"
      using that(2) ceil_div_iff [of RTC_CHUNK_SIZE 0 "file_size file"]
      by (simp add: RTC_CHUNK_SIZE_def file_size_def)
    then have "send_loop (file_bytes file) ?n 0 obs [] = ([], SendWaiting 0)"
      using that(1) by (intro send_loop_stalls)
    then show ?thesis using run by simp
  qed
  have live: "outcome = SendCompleted"
    if "list_all snd obs" "?n \<le> length (filter drained obs)"
    using send_loop_live [of obs ?n 0 "file_bytes file" "[]"] that run by simp
  show ?thesis
    using inv whole stall live by blast
qed

theorem sendFileInChunks_backpressure_witness:
  "sendFileInChunks [(20000000, True), (16777217, True)] example_big_file = ([], SendWaiting 0) \<and>
   map (\<lambda>(bufferedAmount, chunk). (bufferedAmount, length chunk))
     (fst (sendFileInChunks
        [(20000000, True), (16777217, True), (16777216, True), (20000000, True), (0, True),
         (1024, True)] example_big_file)) =
     [(16777216, 16384), (0, 16384), (1024, 7232)] \<and>
   snd (sendFileInChunks
        [(20000000, True), (16777217, True), (16777216, True), (20000000, True), (0, True),
         (1024, True)] example_big_file) = SendCompleted \<and>
   concat (map snd (fst (sendFileInChunks
        [(20000000, True), (16777217, True), (16777216, True), (20000000, True), (0, True),
         (1024, True)] example_big_file))) = file_bytes example_big_file"
  using sendFileInChunks_backpressure
    [of "[(20000000, True), (16777217, True), (16777216, True), (20000000, True), (0, True),
          (1024, True)]" example_big_file
        "fst (sendFileInChunks
          [(20000000, True), (16777217, True), (16777216, True), (20000000, True), (0, True),
           (1024, True)] example_big_file)"
        "snd (sendFileInChunks
          [(20000000, True), (16777217, True), (16777216, True), (20000000, True), (0, True),
           (1024, True)] example_big_file)"]
  by (simp add: sendFileInChunks_def example_big_file_def file_size_def ceil_div_def
      RTC_CHUNK_SIZE_def BUFFER_LIMIT_def send_loop.simps rtc_chunk_def blob_slice_def
      replicate_add [symmetric])

subsection \<open>Reconnection\<close>

lemmas sg_defs = connect_def ws_onopen_def ws_onerror_def ws_onclose_def attemptReconnect_def
  reconnect_timer_def disconnect_def setState_def sg_emit_def Let_def

lemma sg_step_config:
  "maxReconnectAttempts (sg_step i s) = maxReconnectAttempts s \<and>
   reconnectDelay (sg_step i s) = reconnectDelay s"
  by (cases i) (simp_all add: sg_defs split: option.splits)

lemma sg_step_attempts:
  "reconnectAttempts (sg_step i s) =
     (if resets_counter i then 0
      else if schedules_reconnect i s then reconnectAttempts s + 1
      else reconnectAttempts s)"
  by (cases i) (simp_all add: sg_defs split: option.splits)

lemma sg_step_scheduled:
  "sg_scheduled (sg_step i s) =
     sg_scheduled s @
       (if schedules_reconnect i s then [reconnectDelay s * 2 ^ reconnectAttempts s] else [])"
  by (cases i) (simp_all add: sg_defs split: option.splits)

lemma schedules_reconnect_lt:
  "schedules_reconnect i s \<Longrightarrow> reconnectAttempts s < maxReconnectAttempts s"
  by (cases i) simp_all

lemma sg_step_bound:
  "reconnectAttempts s \<le> maxReconnectAttempts s \<Longrightarrow>
   reconnectAttempts (sg_step i s) \<le> maxReconnectAttempts (sg_step i s)"
  using schedules_reconnect_lt [of i s]
  by (auto simp: sg_step_attempts sg_step_config)

lemma sg_run_Cons: "sg_run (i # inputs) s = sg_run inputs (sg_step i s)"
  by (simp add: sg_run_def)

lemma sg_run_config:
  "maxReconnectAttempts (sg_run inputs s) = maxReconnectAttempts s \<and>
   reconnectDelay (sg_run inputs s) = reconnectDelay s"
  by (induction inputs arbitrary: s) (simp_all add: sg_run_def sg_step_config)

lemma sg_run_bound:
  "reconnectAttempts s \<le> maxReconnectAttempts s \<Longrightarrow>
   reconnectAttempts (sg_run inputs s) \<le> maxReconnectAttempts s"
proof (induction inputs arbitrary: s)
  case Nil
  then show ?case by (simp add: sg_run_def)
next
  case (Cons i inputs)
  have "reconnectAttempts (sg_step i s) \<le> maxReconnectAttempts (sg_step i s)"
    using Cons.prems by (rule sg_step_bound)
  then have "reconnectAttempts (sg_run inputs (sg_step i s)) \<le> maxReconnectAttempts (sg_step i s)"
    by (rule Cons.IH)
  then show ?case by (simp add: sg_run_Cons sg_step_config)
qed

lemma sg_run_mono:
  "\<not> list_ex resets_counter inputs \<Longrightarrow> reconnectAttempts s \<le> reconnectAttempts (sg_run inputs s)"
proof (induction inputs arbitrary: s)
  case Nil
  then show ?case by (simp add: sg_run_def)
next
  case (Cons i inputs)
  then have "reconnectAttempts (sg_step i s) \<le> reconnectAttempts (sg_run inputs (sg_step i s))"
    by simp
  moreover have "reconnectAttempts s \<le> reconnectAttempts (sg_step i s)"
    using Cons.prems by (simp add: sg_step_attempts)
  ultimately show ?case by (simp add: sg_run_Cons)
qed

lemma sg_run_scheduled:
  "\<not> list_ex resets_counter inputs \<Longrightarrow>
   sg_scheduled (sg_run inputs s) =
     sg_scheduled s @
       map (\<lambda>k. reconnectDelay s * 2 ^ (k - 1))
         [reconnectAttempts s + 1..<reconnectAttempts (sg_run inputs s) + 1]"
proof (induction inputs arbitrary: s)
  case Nil
  then show ?case by (simp add: sg_run_def)
next
  case (Cons i inputs)
  let ?s' = "sg_step i s"
  let ?n = "reconnectAttempts (sg_run inputs ?s')"
  have nores: "\<not> resets_counter i" and rest: "\<not> list_ex resets_counter inputs"
    using Cons.prems by simp_all
  have ih: "sg_scheduled (sg_run inputs ?s') =
      sg_scheduled ?s' @ map (\<lambda>k. reconnectDelay s * 2 ^ (k - 1)) [reconnectAttempts ?s' + 1..<?n + 1]"
    using Cons.IH [OF rest, of ?s'] by (simp add: sg_step_config)
  have mono: "reconnectAttempts ?s' \<le> ?n"
    using rest by (rule sg_run_mono)
  show ?case
  proof (cases "schedules_reconnect i s")
    case True
    then have a: "reconnectAttempts ?s' = reconnectAttempts s + 1"
      using nores by (simp add: sg_step_attempts)
    have "[reconnectAttempts s + 1..<?n + 1] =
        (reconnectAttempts s + 1) # [reconnectAttempts s + 2..<?n + 1]"
      using mono a by (simp add: upt_conv_Cons)
    then show ?thesis
      using ih True a by (simp add: sg_run_Cons sg_step_scheduled)
  next
    case False
    then have "reconnectAttempts ?s' = reconnectAttempts s"
      using nores by (simp add: sg_step_attempts)
    then show ?thesis
      using ih False by (simp add: sg_run_Cons sg_step_scheduled)
  qed
qed

text \<open>
  Claim C4, as amended. Let the counter start at most at \<^verbatim>\<open>maxReconnectAttempts\<close> (initially
  0 and 5). Then, whatever inputs arrive, the counter never exceeds
  \<^verbatim>\<open>maxReconnectAttempts\<close>. A step schedules a reconnection exactly on a close with a code
  other than 1000 while attempts remain; it then raises the counter by one, to \<open>k\<close>, and
  the delay it schedules is \<^verbatim>\<open>reconnectDelay\<close> times \<open>2 ^ (k - 1)\<close>, so that a run without a
  reset schedules the delays of the attempts \<open>k\<close> from the old counter plus one up to the
  new counter, in order, at most \<^verbatim>\<open>maxReconnectAttempts\<close> of them. The counter is set to 0 by the socket's \<^verbatim>\<open>onopen\<close>, which makes
  the state \<^verbatim>\<open>CONNECTED\<close>, and by \<^verbatim>\<open>disconnect\<close>; no other input lowers it.
\<close>

theorem reconnect_backoff:
  assumes "reconnectAttempts s \<le> maxReconnectAttempts s"
  shows "reconnectAttempts (sg_run inputs s) \<le> maxReconnectAttempts s \<and>
    (\<not> list_ex resets_counter inputs \<longrightarrow>
       sg_scheduled (sg_run inputs s) =
         sg_scheduled s @
           map (\<lambda>k. reconnectDelay s * 2 ^ (k - 1))
             [reconnectAttempts s + 1..<reconnectAttempts (sg_run inputs s) + 1] \<and>
       length (sg_scheduled (sg_run inputs s)) \<le>
         length (sg_scheduled s) + maxReconnectAttempts s) \<and>
    sg_scheduled (sg_step i s) =
      sg_scheduled s @
        (if schedules_reconnect i s
         then [reconnectDelay s * 2 ^ (reconnectAttempts (sg_step i s) - 1)] else []) \<and>
    reconnectAttempts (sg_step i s) =
      (if resets_counter i then 0
       else if schedules_reconnect i s then reconnectAttempts s + 1
       else reconnectAttempts s) \<and>
    sg_state (sg_step (WsOpen k) s) = CONNECTED"
proof -
  have "sg_state (sg_step (WsOpen k) s) = CONNECTED"
    by (simp add: sg_defs)
  moreover have "schedules_reconnect i s \<Longrightarrow> reconnectAttempts (sg_step i s) - 1 = reconnectAttempts s"
    using sg_step_attempts [of i s] by (cases i) simp_all
  moreover have "length (sg_scheduled (sg_run inputs s)) \<le>
      length (sg_scheduled s) + maxReconnectAttempts s"
    if "\<not> list_ex resets_counter inputs"
  proof -
    have "length (sg_scheduled (sg_run inputs s)) =
        length (sg_scheduled s) + (reconnectAttempts (sg_run inputs s) - reconnectAttempts s)"
      using arg_cong [OF sg_run_scheduled [OF that, of s], of length] by (simp del: upt_Suc)
    then show ?thesis using sg_run_bound [OF assms, of inputs] by simp
  qed
  ultimately show ?thesis
    using assms sg_run_bound [of s inputs] sg_run_scheduled [of inputs s]
      sg_step_scheduled [of i s] sg_step_attempts [of i s]
    by simp
qed

theorem reconnect_backoff_witness:
  "reconnectAttempts (sg_run [Connect ''u'', WsOpen 0] new_signaling)
     \<le> maxReconnectAttempts (sg_run [Connect ''u'', WsOpen 0] new_signaling) \<and>
   \<not> list_ex resets_counter [WsClose 0 1006, ReconnectTimer, WsError 1, WsClose 1 1006] \<and>
   reconnectAttempts
     (sg_run [WsClose 0 1006, ReconnectTimer, WsError 1, WsClose 1 1006]
        (sg_run [Connect ''u'', WsOpen 0] new_signaling)) = 2 \<and>
   sg_scheduled
     (sg_run [WsClose 0 1006, ReconnectTimer, WsError 1, WsClose 1 1006]
        (sg_run [Connect ''u'', WsOpen 0] new_signaling)) = [1000, 2000] \<and>
   sg_sockets
     (sg_run [WsClose 0 1006, ReconnectTimer, WsError 1, WsClose 1 1006]
        (sg_run [Connect ''u'', WsOpen 0] new_signaling)) = 2"
  using reconnect_backoff
    [of "sg_run [Connect ''u'', WsOpen 0] new_signaling"
        "[WsClose 0 1006, ReconnectTimer, WsError 1, WsClose 1 1006]" "WsClose 0 1006" 0]
  by (simp add: sg_run_def new_signaling_def sg_defs)

text \<open>
  The claim as stated fails: after a close with code 1006 the counter is 1, and
  \<^verbatim>\<open>disconnect\<close> sets it to 0 while the state stays \<^verbatim>\<open>DISCONNECTED\<close> and no state change
  is emitted.
\<close>

theorem counter_reset_without_connected:
  "reconnectAttempts (sg_run [Connect ''u'', WsOpen 0, WsClose 0 1006] new_signaling) = 1 \<and>
   reconnectAttempts
     (sg_run [Connect ''u'', WsOpen 0, WsClose 0 1006, Disconnect] new_signaling) = 0 \<and>
   sg_state (sg_run [Connect ''u'', WsOpen 0, WsClose 0 1006] new_signaling) = DISCONNECTED \<and>
   sg_state (sg_run [Connect ''u'', WsOpen 0, WsClose 0 1006, Disconnect] new_signaling)
     = DISCONNECTED \<and>
   sg_emitted (sg_run [Connect ''u'', WsOpen 0, WsClose 0 1006, Disconnect] new_signaling) =
     sg_emitted (sg_run [Connect ''u'', WsOpen 0, WsClose 0 1006] new_signaling)"
  by (simp add: sg_run_def new_signaling_def sg_defs)

subsection \<open>Well-formed room tables\<close>

lemma wf_clients_map_set: "wf_clients m \<Longrightarrow> wf_clients (map_set m (client_id c) c)"
  unfolding wf_clients_def list_all_iff
  using set_map_set [of m "client_id c" c] by (auto simp: distinct_map_set)

lemma wf_clients_map_delete: "wf_clients m \<Longrightarrow> wf_clients (map_delete m k)"
  unfolding wf_clients_def list_all_iff
  using set_map_delete [of m k] by (auto simp: distinct_map_delete)

lemma notify_join_rooms:
  "rooms (notify_join r c cs st) = rooms st \<and> clients (notify_join r c cs st) = clients st"
  by (induction cs arbitrary: st) (simp_all add: sendToClient_def)

lemma notify_leave_rooms:
  "rooms (notify_leave cid r cs st) = rooms st \<and> clients (notify_leave cid r cs st) = clients st"
  by (induction cs arbitrary: st) (simp_all add: sendToClient_def)

lemma wf_rooms_new: "wf_rooms new_RoomService"
  by (simp add: wf_rooms_def new_RoomService_def)

lemma wf_rooms_set:
  assumes "wf_rooms st" "room_id room = k" "room_clients room \<noteq> []" "wf_clients (room_clients room)"
  shows "wf_rooms (st\<lparr>rooms := map_set (rooms st) k room\<rparr>)"
  using assms set_map_set [of "rooms st" k room]
  unfolding wf_rooms_def list_all_iff by (auto simp: distinct_map_set)

lemma wf_rooms_lookup:
  assumes "wf_rooms st" "map_get (rooms st) k = Some room"
  shows "room_id room = k \<and> room_clients room \<noteq> [] \<and> wf_clients (room_clients room)"
  using assms map_get_Some_mem [of "rooms st" k room]
  unfolding wf_rooms_def list_all_iff by auto

lemma wf_rooms_joinRoom: "wf_rooms st \<Longrightarrow> wf_rooms (joinRoom r c st)"
proof -
  assume wf: "wf_rooms st"
  define room0 where "room0 = (case map_get (rooms st) r of
                     None \<Rightarrow> \<lparr>room_id = r, room_name = ''default'', room_clients = []\<rparr>
                   | Some room \<Rightarrow> room)"
  define room where "room = room0\<lparr>room_clients := map_set (room_clients room0) (client_id c) c\<rparr>"
  have r0: "room_id room0 = r \<and> wf_clients (room_clients room0)"
    using wf_rooms_lookup [OF wf, of r]
    by (cases "map_get (rooms st) r") (simp_all add: room0_def wf_clients_def)
  have "wf_rooms (st\<lparr>rooms := map_set (rooms st) r room\<rparr>)"
    using wf r0 by (intro wf_rooms_set) (simp_all add: room_def map_set_not_Nil wf_clients_map_set)
  then have "wf_rooms (st\<lparr>rooms := map_set (rooms st) r room,
                   clients := map_set (clients st) (client_id c) c\<rparr>)"
    by (simp add: wf_rooms_def)
  then show ?thesis
    by (simp add: joinRoom_def Let_def wf_rooms_def notify_join_rooms room_def room0_def)
qed

lemma values_map_delete:
  "wf_clients m \<Longrightarrow> map snd (map_delete m k) = filter (\<lambda>c. client_id c \<noteq> k) (map snd m)"
proof (induction m)
  case Nil
  then show ?case by simp
next
  case (Cons a m)
  obtain k0 c0 where a: "a = (k0, c0)" by (cases a)
  have wf: "wf_clients m" and id0: "client_id c0 = k0" and fresh: "k0 \<notin> fst ` set m"
    using Cons.prems a by (simp_all add: wf_clients_def)
  show ?case
  proof (cases "k0 = k")
    case True
    have "\<forall>c \<in> set (map snd m). client_id c \<noteq> k"
    proof
      fix c assume "c \<in> set (map snd m)"
      then obtain k1 where m: "(k1, c) \<in> set m" by auto
      then have "client_id c = k1" using wf by (auto simp: wf_clients_def list_all_iff)
      moreover have "k1 \<noteq> k0" using m fresh by force
      ultimately show "client_id c \<noteq> k" using True by simp
    qed
    then have "filter (\<lambda>c. client_id c \<noteq> k) (map snd m) = map snd m"
      by (simp add: filter_id_conv)
    then show ?thesis using a True id0 by simp
  next
    case False
    then show ?thesis using a id0 Cons.IH [OF wf] by simp
  qed
qed


lemma wf_rooms_leaveRoom: "wf_rooms st \<Longrightarrow> wf_rooms (leaveRoom cid st)"
proof -
  assume wf: "wf_rooms st"
  show ?thesis
  proof (cases "map_get (clients st) cid")
    case None
    then show ?thesis using wf by (simp add: leaveRoom_def)
  next
    case (Some client)
    let ?rk = "client_roomId client"
    show ?thesis
    proof (cases "map_get (rooms st) ?rk")
      case None
      then show ?thesis using wf Some by (simp add: leaveRoom_def)
    next
      case (Some room0)
      note r0 = wf_rooms_lookup [OF wf Some]
      define room where "room = room0\<lparr>room_clients := map_delete (room_clients room0) cid\<rparr>"
      have rid: "room_id room = ?rk" and wfc: "wf_clients (room_clients room)"
        using r0 by (simp_all add: room_def wf_clients_map_delete)
      show ?thesis
      proof (cases "room_clients room = []")
        case False
        have "wf_rooms (st\<lparr>rooms := map_set (rooms st) ?rk room\<rparr>)"
          using wf rid False wfc by (rule wf_rooms_set)
        then have "wf_rooms (st\<lparr>rooms := map_set (rooms st) ?rk room,
            clients := map_delete (clients st) cid\<rparr>)"
          by (simp add: wf_rooms_def)
        then show ?thesis
          using \<open>map_get (clients st) cid = Some client\<close> Some False
          by (simp add: leaveRoom_def Let_def room_def notify_leave_rooms wf_rooms_def)
      next
        case True
        let ?m = "map_delete (map_set (rooms st) ?rk room) ?rk"
        have d: "distinct (map fst (map_set (rooms st) ?rk room))"
          using wf by (simp add: wf_rooms_def distinct_map_set)
        have sub: "set ?m \<subseteq> set (rooms st)"
        proof
          fix x assume x: "x \<in> set ?m"
          then have "fst x \<noteq> ?rk"
            using key_not_in_map_delete [OF d, of ?rk] by force
          moreover have "x \<in> insert (?rk, room) (set (rooms st))"
            using x set_map_delete [of "map_set (rooms st) ?rk room" ?rk]
              set_map_set [of "rooms st" ?rk room] by blast
          ultimately show "x \<in> set (rooms st)" by auto
        qed
        have "distinct (map fst ?m)" using d by (rule distinct_map_delete)
        then have "wf_rooms (st\<lparr>rooms := ?m, clients := map_delete (clients st) cid\<rparr>)"
          using wf sub unfolding wf_rooms_def list_all_iff by auto
        then show ?thesis
          using \<open>map_get (clients st) cid = Some client\<close> Some True rid
          by (simp add: leaveRoom_def Let_def room_def notify_leave_rooms wf_rooms_def)
      qed
    qed
  qed
qed

lemma wf_rooms_run: "wf_rooms (room_run ops)"
proof -
  have "wf_rooms st \<Longrightarrow> wf_rooms (fold room_step ops st)" for st
  proof (induction ops arbitrary: st)
    case Nil
    then show ?case by simp
  next
    case (Cons a ops)
    have "wf_rooms (room_step a st)"
      using Cons.prems by (cases a) (simp_all add: wf_rooms_joinRoom wf_rooms_leaveRoom)
    then show ?case using Cons.IH by simp
  qed
  then show ?thesis using wf_rooms_new by (simp add: room_run_def)
qed

subsection \<open>Join notifications\<close>













subsection \<open>Rooms and their members\<close>

lemma hasRoom_iff_members:
  assumes wf: "wf_rooms st"
  shows "hasRoom st r \<longleftrightarrow> getRoomClients st r \<noteq> []"
proof (cases "map_get (rooms st) r")
  case None
  then show ?thesis by (simp add: hasRoom_def map_has_def getRoomClients_def)
next
  case (Some room)
  then show ?thesis
    using wf_rooms_lookup [OF wf Some]
    by (simp add: hasRoom_def map_has_def getRoomClients_def map_values_def)
qed

lemma joinRoom_rooms:
  "rooms (joinRoom r c st) =
     map_set (rooms st) r
       ((case map_get (rooms st) r of
           None \<Rightarrow> \<lparr>room_id = r, room_name = ''default'', room_clients = []\<rparr>
         | Some room \<Rightarrow> room)
        \<lparr>room_clients :=
           map_set (room_clients (case map_get (rooms st) r of
              None \<Rightarrow> \<lparr>room_id = r, room_name = ''default'', room_clients = []\<rparr>
            | Some room \<Rightarrow> room)) (client_id c) c\<rparr>)"
  by (simp add: joinRoom_def Let_def notify_join_rooms)

lemma hasRoom_joinRoom: "hasRoom (joinRoom r c st) r"
  by (simp add: hasRoom_def map_has_def joinRoom_rooms map_get_map_set)

lemma joinRoom_creates:
  "\<not> hasRoom st r \<Longrightarrow>
   getRoom (joinRoom r c st) r =
     Some \<lparr>room_id = r, room_name = ''default'', room_clients = [(client_id c, c)]\<rparr>"
  by (simp add: hasRoom_def map_has_def getRoom_def joinRoom_rooms map_get_map_set)

lemma hasRoom_joinRoom_other: "r' \<noteq> r \<Longrightarrow> hasRoom (joinRoom r c st) r' = hasRoom st r'"
  by (simp add: hasRoom_def map_has_def joinRoom_rooms map_get_map_set)

lemma hasRoom_leaveRoom:
  assumes wf: "wf_rooms st" and cl: "getClient st cid = Some c"
  shows "hasRoom (leaveRoom cid st) r \<longleftrightarrow>
     hasRoom st r \<and>
     (r \<noteq> client_roomId c \<or> filter (\<lambda>oc. client_id oc \<noteq> cid) (getRoomClients st r) \<noteq> [])"
proof -
  let ?rk = "client_roomId c"
  have c: "map_get (clients st) cid = Some c" using cl by (simp add: getClient_def)
  show ?thesis
  proof (cases "map_get (rooms st) ?rk")
    case None
    then show ?thesis using c by (auto simp: leaveRoom_def hasRoom_def map_has_def)
  next
    case (Some room0)
    note r0 = wf_rooms_lookup [OF wf Some]
    define room where "room = room0\<lparr>room_clients := map_delete (room_clients room0) cid\<rparr>"
    have rid: "room_id room = ?rk" using r0 by (simp add: room_def)
    have rest: "map snd (room_clients room) =
        filter (\<lambda>oc. client_id oc \<noteq> cid) (getRoomClients st ?rk)"
      using r0 Some by (simp add: room_def values_map_delete getRoomClients_def map_values_def)
    have d: "distinct (map fst (map_set (rooms st) ?rk room))"
      using wf by (simp add: wf_rooms_def distinct_map_set)
    have rooms': "rooms (leaveRoom cid st) =
        (if room_clients room = [] then map_delete (map_set (rooms st) ?rk room) ?rk
         else map_set (rooms st) ?rk room)"
      using c Some rid by (simp add: leaveRoom_def Let_def room_def notify_leave_rooms)
    have "map_get (rooms (leaveRoom cid st)) r =
        (if r = ?rk then (if room_clients room = [] then None else Some room)
         else map_get (rooms st) r)"
      by (simp add: rooms' map_get_map_delete [OF d] map_get_map_set)
    moreover have "room_clients room = [] \<longleftrightarrow>
        filter (\<lambda>oc. client_id oc \<noteq> cid) (getRoomClients st ?rk) = []"
      using rest by (metis map_is_Nil_conv)
    ultimately show ?thesis
      using Some by (auto simp: hasRoom_def map_has_def)
  qed
qed

lemma leaveRoom_unknown: "getClient st cid = None \<Longrightarrow> leaveRoom cid st = st"
  by (simp add: leaveRoom_def getClient_def)

lemma leaveRoom_other_room:
  "getClient st cid = Some c \<Longrightarrow> \<not> hasRoom st (client_roomId c) \<Longrightarrow> leaveRoom cid st = st"
  by (simp add: leaveRoom_def getClient_def hasRoom_def map_has_def)

lemma values_map_set_full:
  assumes wf: "wf_clients m"
  shows "map snd (map_set m (client_id c) c) =
     (if map_has m (client_id c)
      then map (\<lambda>oc. if client_id oc = client_id c then c else oc) (map snd m)
      else map snd m @ [c])"
  using wf
proof (induction m)
  case Nil
  then show ?case by (simp add: map_has_def)
next
  case (Cons a m)
  obtain k0 c0 where a: "a = (k0, c0)" by (cases a)
  have wfm: "wf_clients m" and id0: "client_id c0 = k0" and fresh: "k0 \<notin> fst ` set m"
    using Cons.prems a by (simp_all add: wf_clients_def)
  show ?case
  proof (cases "k0 = client_id c")
    case True
    have "\<forall>oc \<in> set (map snd m). client_id oc \<noteq> client_id c"
    proof
      fix oc assume "oc \<in> set (map snd m)"
      then obtain k1 where m: "(k1, oc) \<in> set m" by auto
      then have "client_id oc = k1" using wfm by (auto simp: wf_clients_def list_all_iff)
      moreover have "k1 \<noteq> k0" using m fresh by force
      ultimately show "client_id oc \<noteq> client_id c" using True by simp
    qed
    then have "map (\<lambda>oc. if client_id oc = client_id c then c else oc) (map snd m) = map snd m"
      by (simp add: map_idI)
    then show ?thesis using a True id0 by (simp add: map_has_def)
  next
    case False
    then show ?thesis using a id0 Cons.IH [OF wfm] by (simp add: map_has_def)
  qed
qed

lemma getRoomClients_joinRoom:
  assumes wf: "wf_rooms st"
  shows "getRoomClients (joinRoom r c st) r' =
     (if r' = r
      then (if hasClientInRoom st r (client_id c)
            then map (\<lambda>oc. if client_id oc = client_id c then c else oc) (getRoomClients st r)
            else getRoomClients st r @ [c])
      else getRoomClients st r')"
proof (cases "map_get (rooms st) r")
  case None
  then show ?thesis
    by (simp add: getRoomClients_def joinRoom_rooms map_get_map_set hasClientInRoom_def
        map_values_def)
next
  case (Some room)
  have "wf_clients (room_clients room)" using wf_rooms_lookup [OF wf Some] by simp
  then show ?thesis
    using Some
    by (simp add: getRoomClients_def joinRoom_rooms map_get_map_set hasClientInRoom_def
        map_values_def values_map_set_full)
qed

lemma getClient_joinRoom:
  "getClient (joinRoom r c st) cid = (if cid = client_id c then Some c else getClient st cid)"
  by (simp add: getClient_def joinRoom_def Let_def notify_join_rooms map_get_map_set)

lemma distinct_clients_joinRoom:
  "distinct (map fst (clients st)) \<Longrightarrow> distinct (map fst (clients (joinRoom r c st)))"
  by (simp add: joinRoom_def Let_def notify_join_rooms distinct_map_set)

lemma distinct_clients_leaveRoom:
  "distinct (map fst (clients st)) \<Longrightarrow> distinct (map fst (clients (leaveRoom cid st)))"
  by (simp add: leaveRoom_def Let_def notify_leave_rooms distinct_map_delete
      split: option.splits)

lemma distinct_clients_run: "distinct (map fst (clients (room_run ops)))"
proof -
  have "distinct (map fst (clients st)) \<Longrightarrow> distinct (map fst (clients (fold room_step ops st)))"
    for st
  proof (induction ops arbitrary: st)
    case Nil
    then show ?case by simp
  next
    case (Cons a ops)
    have "distinct (map fst (clients (room_step a st)))"
      using Cons.prems
      by (cases a) (simp_all add: distinct_clients_joinRoom distinct_clients_leaveRoom)
    then show ?case using Cons.IH by simp
  qed
  then show ?thesis by (simp add: room_run_def new_RoomService_def)
qed

lemma leaveRoom_members:
  assumes wf: "wf_rooms st" and d: "distinct (map fst (clients st))"
    and cl: "getClient st cid = Some c" and has: "hasRoom st (client_roomId c)"
  shows "getRoomClients (leaveRoom cid st) r =
           (if r = client_roomId c
            then filter (\<lambda>oc. client_id oc \<noteq> cid) (getRoomClients st r)
            else getRoomClients st r) \<and>
         getClient (leaveRoom cid st) cid' = (if cid' = cid then None else getClient st cid')"
proof -
  let ?rk = "client_roomId c"
  have c: "map_get (clients st) cid = Some c" using cl by (simp add: getClient_def)
  obtain room0 where Some: "map_get (rooms st) ?rk = Some room0"
    using has by (auto simp: hasRoom_def map_has_def)
  note r0 = wf_rooms_lookup [OF wf Some]
  define room where "room = room0\<lparr>room_clients := map_delete (room_clients room0) cid\<rparr>"
  have rid: "room_id room = ?rk" using r0 by (simp add: room_def)
  have rest: "map snd (room_clients room) =
      filter (\<lambda>oc. client_id oc \<noteq> cid) (getRoomClients st ?rk)"
    using r0 Some by (simp add: room_def values_map_delete getRoomClients_def map_values_def)
  have dr: "distinct (map fst (map_set (rooms st) ?rk room))"
    using wf by (simp add: wf_rooms_def distinct_map_set)
  have rooms': "rooms (leaveRoom cid st) =
      (if room_clients room = [] then map_delete (map_set (rooms st) ?rk room) ?rk
       else map_set (rooms st) ?rk room)"
    using c Some rid by (simp add: leaveRoom_def Let_def room_def notify_leave_rooms)
  have get: "map_get (rooms (leaveRoom cid st)) r =
      (if r = ?rk then (if room_clients room = [] then None else Some room)
       else map_get (rooms st) r)"
    by (simp add: rooms' map_get_map_delete [OF dr] map_get_map_set)
  have empty: "room_clients room = [] \<longleftrightarrow>
      filter (\<lambda>oc. client_id oc \<noteq> cid) (getRoomClients st ?rk) = []"
    using rest by (metis map_is_Nil_conv)
  have members: "getRoomClients (leaveRoom cid st) r =
           (if r = client_roomId c
            then filter (\<lambda>oc. client_id oc \<noteq> cid) (getRoomClients st r)
            else getRoomClients st r)"
  proof (cases "r = ?rk")
    case True
    show ?thesis
    proof (cases "room_clients room = []")
      case True
      then show ?thesis using \<open>r = ?rk\<close> get empty by (simp add: getRoomClients_def)
    next
      case False
      then show ?thesis
        using \<open>r = ?rk\<close> get rest by (simp add: getRoomClients_def map_values_def)
    qed
  next
    case False
    then show ?thesis using get by (simp add: getRoomClients_def)
  qed
  have "clients (leaveRoom cid st) = map_delete (clients st) cid"
    using c Some by (simp add: leaveRoom_def Let_def notify_leave_rooms)
  then have "getClient (leaveRoom cid st) cid' =
      (if cid' = cid then None else getClient st cid')"
    using d by (simp add: getClient_def map_get_map_delete)
  then show ?thesis using members by simp
qed

text \<open>
  Claim C6, as amended. \<^verbatim>\<open>leaveRoom\<close> takes a client id only, and finds the room to leave
  through the \<^verbatim>\<open>roomId\<close> field of the client registered under that id. In every state the
  relay reaches by \<^verbatim>\<open>joinRoom\<close> and \<^verbatim>\<open>leaveRoom\<close> calls:
  \<^item> \<^verbatim>\<open>hasRoom\<close> is true of an id exactly when the table holds a room under it, and that is
    so exactly when the room has a member, so that no room without members persists;
  \<^item> after \<^verbatim>\<open>joinRoom\<close> the room exists, and when it did not exist before it is the new
    room with the joining client as its only member; in general the joined room's members
    are the old ones with the joining client added last, or put in the place of the member
    of the same id; every other room keeps its members, and the client is registered
    under its id;
  \<^item> \<^verbatim>\<open>leaveRoom\<close> of a registered client whose \<^verbatim>\<open>roomId\<close> names an existing room removes
    the member of that id from that room and the client from the register, leaves the
    members of every other room as they are, and keeps that room exactly when another
    member remains, so the room is deleted at once when its last member leaves;
  \<^item> \<^verbatim>\<open>leaveRoom\<close> of a registered client whose \<^verbatim>\<open>roomId\<close> names no existing room, and of an
    unregistered id, changes nothing.
\<close>

theorem rooms_exist_iff_occupied:
  "(hasRoom (room_run ops) r \<longleftrightarrow> getRoomClients (room_run ops) r \<noteq> []) \<and>
   hasRoom (room_run ops) r = (getRoom (room_run ops) r \<noteq> None) \<and>
   hasRoom (joinRoom r c (room_run ops)) r \<and>
   (\<not> hasRoom (room_run ops) r \<longrightarrow>
      getRoom (joinRoom r c (room_run ops)) r =
        Some \<lparr>room_id = r, room_name = ''default'', room_clients = [(client_id c, c)]\<rparr>) \<and>
   getRoomClients (joinRoom r c (room_run ops)) r' =
     (if r' = r
      then (if hasClientInRoom (room_run ops) r (client_id c)
            then map (\<lambda>oc. if client_id oc = client_id c then c else oc)
                   (getRoomClients (room_run ops) r)
            else getRoomClients (room_run ops) r @ [c])
      else getRoomClients (room_run ops) r') \<and>
   getClient (joinRoom r c (room_run ops)) cid' =
     (if cid' = client_id c then Some c else getClient (room_run ops) cid') \<and>
   (getClient (room_run ops) cid = Some leaver \<longrightarrow>
      (hasRoom (leaveRoom cid (room_run ops)) r \<longleftrightarrow>
         hasRoom (room_run ops) r \<and>
         (r \<noteq> client_roomId leaver \<or>
          filter (\<lambda>oc. client_id oc \<noteq> cid) (getRoomClients (room_run ops) r) \<noteq> []))) \<and>
   (getClient (room_run ops) cid = Some leaver \<and> hasRoom (room_run ops) (client_roomId leaver) \<longrightarrow>
      getRoomClients (leaveRoom cid (room_run ops)) r =
        (if r = client_roomId leaver
         then filter (\<lambda>oc. client_id oc \<noteq> cid) (getRoomClients (room_run ops) r)
         else getRoomClients (room_run ops) r) \<and>
      getClient (leaveRoom cid (room_run ops)) cid' =
        (if cid' = cid then None else getClient (room_run ops) cid')) \<and>
   (getClient (room_run ops) cid = Some leaver \<and>
    \<not> hasRoom (room_run ops) (client_roomId leaver) \<longrightarrow>
      leaveRoom cid (room_run ops) = room_run ops) \<and>
   (getClient (room_run ops) cid = None \<longrightarrow> leaveRoom cid (room_run ops) = room_run ops)"
proof -
  let ?st = "room_run ops"
  note wf = wf_rooms_run [of ops]
  have 1: "hasRoom ?st r \<longleftrightarrow> getRoomClients ?st r \<noteq> []"
    by (rule hasRoom_iff_members [OF wf])
  have 2: "hasRoom ?st r = (getRoom ?st r \<noteq> None)"
    by (simp add: hasRoom_def getRoom_def map_has_def)
  have 3: "getClient ?st cid = Some leaver \<and> hasRoom ?st (client_roomId leaver) \<longrightarrow>
      getRoomClients (leaveRoom cid ?st) r =
        (if r = client_roomId leaver
         then filter (\<lambda>oc. client_id oc \<noteq> cid) (getRoomClients ?st r)
         else getRoomClients ?st r) \<and>
      getClient (leaveRoom cid ?st) cid' = (if cid' = cid then None else getClient ?st cid')"
    using leaveRoom_members [OF wf distinct_clients_run, of cid leaver r cid'] by blast
  have 4: "getClient ?st cid = Some leaver \<longrightarrow>
      (hasRoom (leaveRoom cid ?st) r \<longleftrightarrow>
         hasRoom ?st r \<and>
         (r \<noteq> client_roomId leaver \<or>
          filter (\<lambda>oc. client_id oc \<noteq> cid) (getRoomClients ?st r) \<noteq> []))"
    using hasRoom_leaveRoom [OF wf, of cid leaver r] by blast
  have 5: "getClient ?st cid = Some leaver \<and> \<not> hasRoom ?st (client_roomId leaver) \<longrightarrow>
      leaveRoom cid ?st = ?st"
    using leaveRoom_other_room [of ?st cid leaver] by blast
  have 6: "getClient ?st cid = None \<longrightarrow> leaveRoom cid ?st = ?st"
    using leaveRoom_unknown [of ?st cid] by blast
  have 7: "\<not> hasRoom ?st r \<longrightarrow>
      getRoom (joinRoom r c ?st) r =
        Some \<lparr>room_id = r, room_name = ''default'', room_clients = [(client_id c, c)]\<rparr>"
    using joinRoom_creates [of ?st r c] by blast
  show ?thesis
    using 1 2 hasRoom_joinRoom [of r c ?st] 7 getRoomClients_joinRoom [OF wf, of r c r']
      getClient_joinRoom [of r c ?st cid'] 4 3 5 6
    by (intro conjI)
qed

lemmas room_defs = room_run_def new_RoomService_def joinRoom_def leaveRoom_def sendToClient_def
  getRoomClients_def getClient_def getRoom_def hasRoom_def hasClientInRoom_def map_has_def
  map_values_def client_u1_def client_u2_def Let_def

theorem rooms_exist_iff_occupied_witness:
  "\<not> hasRoom (room_run []) ''default'' \<and>
   getRoom (joinRoom ''default'' client_u1 (room_run [])) ''default'' =
     Some \<lparr>room_id = ''default'', room_name = ''default'', room_clients = [(''u1'', client_u1)]\<rparr> \<and>
   getClient (room_run []) ''u1'' = None \<and>
   leaveRoom ''u1'' (room_run []) = room_run [] \<and>
   getClient (room_run [JoinRoom ''default'' client_u1, JoinRoom ''default'' client_u2]) ''u1''
     = Some client_u1 \<and>
   getRoomClients (room_run [JoinRoom ''default'' client_u1, JoinRoom ''default'' client_u2])
     ''default'' = [client_u1, client_u2] \<and>
   getRoomClients
     (leaveRoom ''u1'' (room_run [JoinRoom ''default'' client_u1, JoinRoom ''default'' client_u2]))
     ''default'' = [client_u2] \<and>
   hasRoom
     (leaveRoom ''u1'' (room_run [JoinRoom ''default'' client_u1, JoinRoom ''default'' client_u2]))
     ''default'' \<and>
   getClient
     (room_run [JoinRoom ''default'' client_u1, JoinRoom ''default'' client_u2, LeaveRoom ''u1''])
     ''u2'' = Some client_u2 \<and>
   getRoomClients
     (leaveRoom ''u2''
        (room_run [JoinRoom ''default'' client_u1, JoinRoom ''default'' client_u2,
                   LeaveRoom ''u1'']))
     ''default'' = [] \<and>
   \<not> hasRoom
     (leaveRoom ''u2''
        (room_run [JoinRoom ''default'' client_u1, JoinRoom ''default'' client_u2,
                   LeaveRoom ''u1'']))
     ''default'' \<and>
   getClient (room_run [JoinRoom ''r1'' client_u1]) ''u1'' = Some client_u1 \<and>
   \<not> hasRoom (room_run [JoinRoom ''r1'' client_u1]) (client_roomId client_u1) \<and>
   leaveRoom ''u1'' (room_run [JoinRoom ''r1'' client_u1]) = room_run [JoinRoom ''r1'' client_u1]"
  using rooms_exist_iff_occupied
      [of "[]" "''default''" client_u1 "''default''" "''u1''" "''u1''" client_u1]
    rooms_exist_iff_occupied
      [of "[JoinRoom ''default'' client_u1, JoinRoom ''default'' client_u2]" "''default''"
          client_u1 "''default''" "''u1''" "''u1''" client_u1]
    rooms_exist_iff_occupied
      [of "[JoinRoom ''default'' client_u1, JoinRoom ''default'' client_u2, LeaveRoom ''u1'']"
          "''default''" client_u1 "''default''" "''u2''" "''u2''" client_u2]
    rooms_exist_iff_occupied
      [of "[JoinRoom ''r1'' client_u1]" "''r1''" client_u1 "''r1''" "''u1''" "''u1''" client_u1]
  by (simp add: room_defs)

text \<open>
  The claim as stated fails. A client is built with a \<^verbatim>\<open>roomId\<close> of its own, and \<^verbatim>\<open>joinRoom\<close>
  takes the room to join as a separate argument and does not compare the two. After
  \<^verbatim>\<open>joinRoom('r1', u1)\<close> with \<^verbatim>\<open>u1.roomId = 'default'\<close> the room \<^verbatim>\<open>r1\<close> has the one member
  \<^verbatim>\<open>u1\<close>; \<^verbatim>\<open>leaveRoom('u1')\<close> looks for the room \<^verbatim>\<open>default\<close>, finds none and returns: \<^verbatim>\<open>r1\<close>
  is still there. With a second client in \<^verbatim>\<open>default\<close>, \<^verbatim>\<open>leaveRoom('u1')\<close> unregisters \<^verbatim>\<open>u1\<close>
  and tells that client, and \<^verbatim>\<open>r1\<close> persists with the member \<^verbatim>\<open>u1\<close>, which no later
  \<^verbatim>\<open>leaveRoom\<close> removes.
\<close>

theorem leaveRoom_misses_room_joined_under_other_id:
  "getRoomClients (room_run [JoinRoom ''r1'' client_u1]) ''r1'' = [client_u1] \<and>
   getRoomClients (leaveRoom ''u1'' (room_run [JoinRoom ''r1'' client_u1])) ''r1'' = [client_u1] \<and>
   hasRoom (leaveRoom ''u1'' (room_run [JoinRoom ''r1'' client_u1])) ''r1'' \<and>
   getClient
     (leaveRoom ''u1'' (room_run [JoinRoom ''r1'' client_u1, JoinRoom ''default'' client_u2]))
     ''u1'' = None \<and>
   getRoomClients
     (leaveRoom ''u1'' (room_run [JoinRoom ''r1'' client_u1, JoinRoom ''default'' client_u2]))
     ''r1'' = [client_u1] \<and>
   leaveRoom ''u1''
     (leaveRoom ''u1'' (room_run [JoinRoom ''r1'' client_u1, JoinRoom ''default'' client_u2])) =
   leaveRoom ''u1'' (room_run [JoinRoom ''r1'' client_u1, JoinRoom ''default'' client_u2])"
  by (simp add: room_defs)

subsection \<open>Listeners that throw, and listeners that unsubscribe\<close>

lemma listeners_of_on:
  "listeners_of (emitter_on e l table) event =
     (if event = e then listeners_of table event @ [l] else listeners_of table event)"
  by (simp add: emitter_on_def listeners_of_def map_get_map_set)

lemma listeners_of_off:
  "e \<noteq> event \<Longrightarrow> listeners_of (emitter_off e l table) event = listeners_of table event"
  by (simp add: emitter_off_def listeners_of_def map_get_map_set split: option.splits)

lemma indexOf_remove1: "indexOf xs x = Some i \<Longrightarrow> splice1 i xs = remove1 x xs"
  by (induction xs arbitrary: i) (auto simp: splice1_def split: if_splits)

lemma indexOf_None: "indexOf xs x = None \<longleftrightarrow> x \<notin> set xs"
  by (induction xs) auto

lemma listeners_of_off_same:
  "listeners_of (emitter_off event l table) event = remove1 l (listeners_of table event)"
proof (cases "map_get table event")
  case None
  then show ?thesis by (simp add: emitter_off_def listeners_of_def)
next
  case (Some listeners)
  show ?thesis
  proof (cases "indexOf listeners l")
    case None
    then have "l \<notin> set listeners" by (simp add: indexOf_None)
    then show ?thesis
      using Some None by (simp add: emitter_off_def listeners_of_def remove1_idem)
  next
    case (Some i)
    then show ?thesis
      using \<open>map_get table event = Some listeners\<close>
      by (simp add: emitter_off_def listeners_of_def map_get_map_set indexOf_remove1)
  qed
qed

lemma do_call_keeps:
  "\<not> removes event c \<Longrightarrow>
   \<exists>added. listeners_of (do_call c table) event = listeners_of table event @ added"
  by (cases c) (auto simp: listeners_of_on listeners_of_off)

lemma fold_do_call_keeps:
  "list_all (\<lambda>c. \<not> removes event c) calls \<Longrightarrow>
   \<exists>added. listeners_of (fold do_call calls table) event = listeners_of table event @ added"
proof (induction calls arbitrary: table)
  case Nil
  then show ?case by simp
next
  case (Cons c calls)
  obtain a1 where a1: "listeners_of (do_call c table) event = listeners_of table event @ a1"
    using do_call_keeps [of event c table] Cons.prems by auto
  obtain a2 where "listeners_of (fold do_call calls (do_call c table)) event =
      listeners_of (do_call c table) event @ a2"
    using Cons.IH [of "do_call c table"] Cons.prems by auto
  then show ?case using a1 by simp
qed

text \<open>A guarded call returns normally, whatever the listener does.\<close>

lemma guarded_call:
  "\<exists>line'. try_catch (call_listener code l args) (\<lambda>err. console_error (line @ err)) s =
     (None, s\<lparr>eventListeners := fold do_call (snd (snd (code l args (world s)))) (eventListeners s),
              world := fst (snd (code l args (world s))),
              invoked := invoked s @ [(l, snd (snd (code l args (world s))))],
              error_log := error_log s @ line'\<rparr>)"
proof -
  obtain thrown w' calls where c: "code l args (world s) = (thrown, w', calls)"
    by (cases "code l args (world s)")
  show ?thesis
  proof (cases thrown)
    case None
    then show ?thesis using c
      by (intro exI [of _ "[]"]) (simp add: try_catch_def call_listener_def)
  next
    case (Some err)
    then show ?thesis using c
      by (intro exI [of _ "[line @ err]"])
         (simp add: try_catch_def call_listener_def console_error_def)
  qed
qed

text \<open>
  The loop from index \<open>k\<close> with \<open>n\<close> indices to go: it ends without an exception; the world
  is the one the listeners it called leave, in the order of the calls; and when none of
  them called \<^verbatim>\<open>off\<close> for the event and the array had the \<open>n\<close> indices from \<open>k\<close> on, it
  called exactly the listeners at these indices, in order.
\<close>

lemma forEach_guarded:
  fixes code :: "nat \<Rightarrow> ('a, 'w) listener"
  defines "cb \<equiv> \<lambda>line args. (\<lambda>listener. try_catch (call_listener code listener args)
          (\<lambda>err. console_error (line @ err)))"
  shows "fst (forEach (\<lambda>s'. listeners_of (eventListeners s') event) (cb line args) k n s) = None \<and>
   (\<exists>t. invoked (snd (forEach (\<lambda>s'. listeners_of (eventListeners s') event) (cb line args) k n s))
          = invoked s @ t \<and>
        world (snd (forEach (\<lambda>s'. listeners_of (eventListeners s') event) (cb line args) k n s))
          = run_all code (map fst t) args (world s) \<and>
        (no_off event t \<longrightarrow> k + n \<le> length (listeners_of (eventListeners s) event) \<longrightarrow>
           map fst t = take n (drop k (listeners_of (eventListeners s) event))))"
proof (induction n arbitrary: k s)
  case 0
  then show ?case by (simp add: run_all_def no_off_def)
next
  case (Suc n)
  let ?arr = "\<lambda>s'. listeners_of (eventListeners s') event"
  show ?case
  proof (cases "k < length (?arr s)")
    case False
    obtain t where t: "invoked (snd (forEach ?arr (cb line args) (k + 1) n s)) = invoked s @ t"
      "world (snd (forEach ?arr (cb line args) (k + 1) n s)) =
         run_all code (map fst t) args (world s)"
      using Suc.IH [of "k + 1" s] by auto
    show ?thesis
      using False Suc.IH [of "k + 1" s] t
      by (intro conjI exI [of _ t]) simp_all
  next
    case True
    let ?l = "?arr s ! k"
    let ?calls = "snd (snd (code ?l args (world s)))"
    obtain line' where g: "cb line args ?l s =
     (None, s\<lparr>eventListeners := fold do_call ?calls (eventListeners s),
              world := fst (snd (code ?l args (world s))),
              invoked := invoked s @ [(?l, ?calls)],
              error_log := error_log s @ line'\<rparr>)"
      using guarded_call [of code ?l args line s] unfolding cb_def by auto
    define s1 where "s1 = s\<lparr>eventListeners := fold do_call ?calls (eventListeners s),
              world := fst (snd (code ?l args (world s))),
              invoked := invoked s @ [(?l, ?calls)],
              error_log := error_log s @ line'\<rparr>"
    have step: "forEach ?arr (cb line args) k (Suc n) s = forEach ?arr (cb line args) (k + 1) n s1"
      using True g by (simp add: s1_def)
    obtain t where t: "invoked (snd (forEach ?arr (cb line args) (k + 1) n s1)) = invoked s1 @ t"
      "world (snd (forEach ?arr (cb line args) (k + 1) n s1)) =
         run_all code (map fst t) args (world s1)"
      "no_off event t \<longrightarrow> k + 1 + n \<le> length (?arr s1) \<longrightarrow>
           map fst t = take n (drop (k + 1) (?arr s1))"
      and none: "fst (forEach ?arr (cb line args) (k + 1) n s1) = None"
      using Suc.IH [of "k + 1" s1] by auto
    have inv: "invoked (snd (forEach ?arr (cb line args) k (Suc n) s)) =
        invoked s @ ((?l, ?calls) # t)"
      using t(1) step by (simp add: s1_def)
    have w: "world (snd (forEach ?arr (cb line args) k (Suc n) s)) =
        run_all code (map fst ((?l, ?calls) # t)) args (world s)"
      using t(2) step by (simp add: s1_def run_all_def)
    have order: "map fst ((?l, ?calls) # t) = take (Suc n) (drop k (?arr s))"
      if no: "no_off event ((?l, ?calls) # t)" and len: "k + Suc n \<le> length (?arr s)"
    proof -
      have "list_all (\<lambda>c. \<not> removes event c) ?calls" and not: "no_off event t"
        using no by (simp_all add: no_off_def)
      then obtain added where a: "?arr s1 = ?arr s @ added"
        using fold_do_call_keeps [of event ?calls "eventListeners s"] by (auto simp: s1_def)
      have "map fst t = take n (drop (k + 1) (?arr s1))"
        using t(3) not len a by simp
      also have "\<dots> = take n (drop (k + 1) (?arr s))"
        using len a by simp
      finally have "map fst t = take n (drop (Suc k) (?arr s))" by simp
      moreover have "drop k (?arr s) = ?l # drop (Suc k) (?arr s)"
        using True by (simp add: Cons_nth_drop_Suc)
      ultimately show ?thesis by simp
    qed
    show ?thesis
      using none step inv w order
      by (intro conjI exI [of _ "(?l, ?calls) # t"]) auto
  qed
qed

lemma emit_with_result:
  "fst (emit_with line code event args s) = None \<and>
   world (snd (emit_with line code event args s)) =
     run_all code (map fst (trace_of s (snd (emit_with line code event args s)))) args (world s) \<and>
   (no_off event (trace_of s (snd (emit_with line code event args s))) \<longrightarrow>
      map fst (trace_of s (snd (emit_with line code event args s))) =
        listeners_of (eventListeners s) event)"
  using forEach_guarded [where code = code and line = "line @ event @ '': ''" and args = args
      and event = event and k = 0 and n = "length (listeners_of (eventListeners s) event)"
      and s = s]
  unfolding emit_with_def trace_of_def by auto

text \<open>
  Claim C10, as amended. For each of the three managers, whatever the registered
  listeners do, among them throwing and calling \<^verbatim>\<open>on\<close> and \<^verbatim>\<open>off\<close>: \<^verbatim>\<open>emit\<close> returns without an
  exception; the listeners' world afterwards is the one obtained by running the listeners
  it called in turn, each on the world its predecessor left, whether or not any of them
  threw; and when none of the listeners it called has called \<^verbatim>\<open>off\<close> for the emitted event,
  the listeners it called are exactly those registered for the event when \<^verbatim>\<open>emit\<close> began,
  each once per registration, in the order of registration.
\<close>

theorem emit_never_throws:
  "fst (signaling_emit code event args s) = None \<and>
   fst (fileTransfer_emit code event args s) = None \<and>
   fst (webRTC_emit code event args s) = None \<and>
   world (snd (signaling_emit code event args s)) =
     run_all code (map fst (trace_of s (snd (signaling_emit code event args s)))) args (world s) \<and>
   world (snd (fileTransfer_emit code event args s)) =
     run_all code (map fst (trace_of s (snd (fileTransfer_emit code event args s)))) args
       (world s) \<and>
   world (snd (webRTC_emit code event args s)) =
     run_all code (map fst (trace_of s (snd (webRTC_emit code event args s)))) args (world s) \<and>
   (no_off event (trace_of s (snd (signaling_emit code event args s))) \<longrightarrow>
      map fst (trace_of s (snd (signaling_emit code event args s))) =
        listeners_of (eventListeners s) event) \<and>
   (no_off event (trace_of s (snd (fileTransfer_emit code event args s))) \<longrightarrow>
      map fst (trace_of s (snd (fileTransfer_emit code event args s))) =
        listeners_of (eventListeners s) event) \<and>
   (no_off event (trace_of s (snd (webRTC_emit code event args s))) \<longrightarrow>
      map fst (trace_of s (snd (webRTC_emit code event args s))) =
        listeners_of (eventListeners s) event)"
  unfolding signaling_emit_def fileTransfer_emit_def webRTC_emit_def
  using emit_with_result [of "''Error in signaling event listener for ''" code event args s]
    emit_with_result [of "''Error in file transfer event listener for ''" code event args s]
    emit_with_result [of "''Error in event listener for ''" code event args s]
  by simp

lemmas emit_defs = signaling_emit_def fileTransfer_emit_def webRTC_emit_def emit_with_def
  listeners_of_def try_catch_def call_listener_def console_error_def example_code_def
  emitter0_def emitter_on_def emitter_off_def splice1_def trace_of_def no_off_def run_all_def

theorem emit_never_throws_witness:
  "signaling_emit example_code ''error'' ''x'' (emitter0 [1, 2, 1]) =
     (None, \<lparr>eventListeners = [(''error'', [1, 2, 1, 1])], world = 2,
             error_log = [''Error in signaling event listener for error: boom''],
             invoked = [(1, []), (2, [On ''error'' 1, Off ''other'' 2]), (1, [])]\<rparr>) \<and>
   fileTransfer_emit example_code ''error'' ''x'' (emitter0 [1, 2, 1]) =
     (None, \<lparr>eventListeners = [(''error'', [1, 2, 1, 1])], world = 2,
             error_log = [''Error in file transfer event listener for error: boom''],
             invoked = [(1, []), (2, [On ''error'' 1, Off ''other'' 2]), (1, [])]\<rparr>) \<and>
   webRTC_emit example_code ''error'' ''x'' (emitter0 [1, 2, 1]) =
     (None, \<lparr>eventListeners = [(''error'', [1, 2, 1, 1])], world = 2,
             error_log = [''Error in event listener for error: boom''],
             invoked = [(1, []), (2, [On ''error'' 1, Off ''other'' 2]), (1, [])]\<rparr>) \<and>
   no_off ''error'' (trace_of (emitter0 [1, 2, 1])
      (snd (signaling_emit example_code ''error'' ''x'' (emitter0 [1, 2, 1])))) \<and>
   no_off ''error'' (trace_of (emitter0 [1, 2, 1])
      (snd (fileTransfer_emit example_code ''error'' ''x'' (emitter0 [1, 2, 1])))) \<and>
   no_off ''error'' (trace_of (emitter0 [1, 2, 1])
      (snd (webRTC_emit example_code ''error'' ''x'' (emitter0 [1, 2, 1])))) \<and>
   map fst (trace_of (emitter0 [1, 2, 1])
      (snd (signaling_emit example_code ''error'' ''x'' (emitter0 [1, 2, 1])))) = [1, 2, 1] \<and>
   listeners_of (eventListeners (emitter0 [1, 2, 1])) ''error'' = [1, 2, 1]"
  using emit_never_throws [of example_code "''error''" "''x''" "emitter0 [1, 2, 1]"]
  by (simp add: emit_defs numeral_2_eq_2 numeral_3_eq_3)

text \<open>
  The claim as stated fails. \<^verbatim>\<open>forEach\<close> runs over the array that \<^verbatim>\<open>off\<close> splices. With the
  listeners 0 and 1 registered for \<^verbatim>\<open>error\<close>, in this order, listener 0 removes itself and
  throws: the exception is caught and logged, but listener 1 has moved to index 0, index 1
  is gone, and \<^verbatim>\<open>emit\<close> returns without having called listener 1. The counter it would have
  raised is still 0.
\<close>

theorem self_removing_listener_skips_next:
  "listeners_of (eventListeners (emitter0 [0, 1])) ''error'' = [0, 1] \<and>
   signaling_emit example_code ''error'' ''x'' (emitter0 [0, 1]) =
     (None, \<lparr>eventListeners = [(''error'', [1])], world = 0,
             error_log = [''Error in signaling event listener for error: boom''],
             invoked = [(0, [Off ''error'' 0])]\<rparr>) \<and>
   fileTransfer_emit example_code ''error'' ''x'' (emitter0 [0, 1]) =
     (None, \<lparr>eventListeners = [(''error'', [1])], world = 0,
             error_log = [''Error in file transfer event listener for error: boom''],
             invoked = [(0, [Off ''error'' 0])]\<rparr>) \<and>
   webRTC_emit example_code ''error'' ''x'' (emitter0 [0, 1]) =
     (None, \<lparr>eventListeners = [(''error'', [1])], world = 0,
             error_log = [''Error in event listener for error: boom''],
             invoked = [(0, [Off ''error'' 0])]\<rparr>)"
  by (simp add: emit_defs numeral_2_eq_2)

end
